theory Spec2Isabelle
  imports Main "HOL-Library.Sublist"
begin

section \<open>Strings and exceptions\<close>

text \<open>
  A Python \<open>str\<close> is modelled by the list of its characters and a \<open>bytes\<close> value by the
  list of its bytes, both as Isabelle strings. Isabelle characters are eight bits wide, so
  the development covers text whose code points lie below 256; on ASCII text
  \<open>encode('utf-8')\<close> and \<open>decode('utf-8')\<close> are the identity.

  Exceptions are values. \<open>Exn c m\<close> is an instance of a class \<open>c\<close> deriving from
  \<open>Exception\<close> whose \<open>str()\<close> is \<open>m\<close>; the message is \<open>None\<close> where the text is produced
  by the Python runtime and is not reproduced here. \<open>BaseExn c m\<close> is an instance of a
  class deriving from \<open>BaseException\<close> but not from \<open>Exception\<close>, such as \<open>SystemExit\<close>,
  \<open>KeyboardInterrupt\<close> or \<open>GeneratorExit\<close>: a clause \<open>except Exception\<close> does not catch it.
  \<open>Unmodelled\<close> is not an exception: it marks a run that leaves the fragment of Python
  covered here, and says nothing about what the program does.
\<close>

datatype exn = Exn string "string option" | BaseExn string "string option" | Unmodelled

definition bslash :: char where "bslash = CHR 0x5C"
definition newline :: char where "newline = CHR 0x0A"
definition cret :: char where "cret = CHR 0x0D"

definition is_digit :: "char \<Rightarrow> bool" where
  "is_digit c = (48 \<le> (of_char c :: nat) \<and> (of_char c :: nat) \<le> 57)"

definition is_ascii_alnum :: "char \<Rightarrow> bool" where
  "is_ascii_alnum c =
     (let n = (of_char c :: nat)
      in (48 \<le> n \<and> n \<le> 57) \<or> (65 \<le> n \<and> n \<le> 90) \<or> (97 \<le> n \<and> n \<le> 122))"

text \<open>\<open>str.replace(old, new, 1)\<close>: the leftmost occurrence of \<open>old\<close> is replaced.\<close>

fun replace_first :: "string \<Rightarrow> string \<Rightarrow> string \<Rightarrow> string" where
  "replace_first old new [] = (if old = [] then new else [])"
| "replace_first old new (x # xs) =
     (if prefix old (x # xs) then new @ drop (length old) (x # xs)
      else x # replace_first old new xs)"

section \<open>Python's regular expressions\<close>

subsection \<open>Abstract syntax and the backtracking matcher\<close>

datatype citem = CChar char | CRange char char | CDigit

datatype regex =
    Lit char
  | Dot
  | Cls bool "citem list"
  | Bol
  | Eol
  | Eps
  | Seq regex regex
  | Alt regex regex
  | Rep nat "nat option" regex
  | Grp nat regex

fun citem_match :: "citem \<Rightarrow> char \<Rightarrow> bool" where
  "citem_match (CChar a) c = (a = c)"
| "citem_match (CRange lo hi) c =
     ((of_char lo :: nat) \<le> of_char c \<and> (of_char c :: nat) \<le> of_char hi)"
| "citem_match CDigit c = is_digit c"

definition cls_match :: "bool \<Rightarrow> citem list \<Rightarrow> char \<Rightarrow> bool" where
  "cls_match neg items c = (list_ex (\<lambda>i. citem_match i c) items \<noteq> neg)"

fun rsize :: "regex \<Rightarrow> nat" where
  "rsize (Seq a b) = Suc (rsize a + rsize b)"
| "rsize (Alt a b) = Suc (rsize a + rsize b)"
| "rsize (Rep lo hi r) = Suc (rsize r)"
| "rsize (Grp n r) = Suc (rsize r)"
| "rsize _ = 0"

type_synonym caps = "(nat \<times> string) list"
type_synonym mstate = "string \<times> caps"

text \<open>
  \<open>ms inp r (s, g)\<close> lists, in the order in which the backtracking engine tries them,
  the states reached by matching \<open>r\<close> at the front of the remaining input \<open>s\<close>; \<open>inp\<close> is
  the whole subject string and \<open>g\<close> the groups captured so far, most recent first.
  Repetition is greedy; an iteration beyond the minimum must consume input.
\<close>

function ms :: "string \<Rightarrow> regex \<Rightarrow> mstate \<Rightarrow> mstate list" where
  "ms inp (Lit c) st =
     (case fst st of [] \<Rightarrow> [] | x # xs \<Rightarrow> if x = c then [(xs, snd st)] else [])"
| "ms inp Dot st =
     (case fst st of [] \<Rightarrow> [] | x # xs \<Rightarrow> if x \<noteq> newline then [(xs, snd st)] else [])"
| "ms inp (Cls neg items) st =
     (case fst st of [] \<Rightarrow> []
      | x # xs \<Rightarrow> if cls_match neg items x then [(xs, snd st)] else [])"
| "ms inp Bol st = (if length (fst st) = length inp then [st] else [])"
| "ms inp Eol st = (if fst st = [] \<or> fst st = [newline] then [st] else [])"
| "ms inp Eps st = [st]"
| "ms inp (Seq a b) st = concat (map (ms inp b) (ms inp a st))"
| "ms inp (Alt a b) st = ms inp a st @ ms inp b st"
| "ms inp (Grp n r) st =
     map (\<lambda>st'. (fst st', (n, take (length (fst st) - length (fst st')) (fst st)) # snd st'))
         (ms inp r st)"
| "ms inp (Rep lo hi r) st =
     (if hi = Some 0 then [st]
      else concat (map (\<lambda>st'. if 0 < lo \<or> length (fst st') < length (fst st)
                               then ms inp (Rep (lo - 1) (map_option (\<lambda>h. h - 1) hi) r) st'
                               else [])
                       (ms inp r st))
           @ (if lo = 0 then [st] else []))"
  by pat_completeness auto
termination
  by (relation "inv_image (less_than <*lex*> less_than <*lex*> less_than)
        (\<lambda>(inp, r, st). (rsize r, (case r of Rep lo hi b \<Rightarrow> lo | _ \<Rightarrow> 0), length (fst st)))")
     auto

lemmas ms_Rep = ms.simps(10)

declare ms.simps(10) [simp del]

subsection \<open>Reading a pattern\<close>

text \<open>
  The pattern text is first cut into tokens, then assembled with an explicit stack of open
  groups. The fragment covered is: literals, \<open>.\<close>, \<open>^\<close>, \<open>$\<close>, character sets with ranges
  and \<open>\d\<close>, escaped punctuation, the greedy repetitions \<open>*\<close>, \<open>+\<close>, \<open>?\<close>, \<open>{m}\<close>, \<open>{m,n}\<close>,
  alternation, capturing groups and \<open>(?:...)\<close>. A malformed pattern yields the token
  \<open>TErr (Exn ''re.error'' None)\<close>, syntax outside the fragment \<open>TErr Unmodelled\<close>; the
  assembly stops at the first such token, as the one-pass parser of \<open>re\<close> does.
\<close>

datatype token =
    TLit char | TDot | TBol | TEol | TCls bool "citem list"
  | TStar | TPlus | TOpt | TRep nat "nat option"
  | TOpen | TOpenNC | TClose | TBar
  | TErr exn

definition re_error :: exn where
  "re_error = Exn ''re.error'' None"

text \<open>One member of a character set: a plain character or an escape.\<close>

definition class_atom :: "char \<Rightarrow> string \<Rightarrow> exn + (citem \<times> string)" where
  "class_atom c r =
     (if c = bslash then
        (case r of [] \<Rightarrow> Inl re_error
         | e # r' \<Rightarrow> if e = CHR ''d'' then Inr (CDigit, r')
                     else if is_ascii_alnum e then Inl Unmodelled
                     else Inr (CChar e, r'))
      else Inr (CChar c, r))"

lemma class_atom_length:
  "class_atom c r = Inr (a, r') \<Longrightarrow> length r' \<le> length r"
  by (auto simp: class_atom_def split: if_splits list.splits)

function lex_class :: "citem list \<Rightarrow> string \<Rightarrow> exn + (citem list \<times> string)" where
  "lex_class acc [] = Inl re_error"
| "lex_class acc (c # r) =
     (if c = CHR '']'' \<and> acc \<noteq> [] then Inr (acc, r)
      else case class_atom c r of
        Inl e \<Rightarrow> Inl e
      | Inr (code1, r1) \<Rightarrow>
          (case r1 of
             [] \<Rightarrow> lex_class (acc @ [code1]) r1
           | d # r2 \<Rightarrow>
               if d \<noteq> CHR ''-'' then lex_class (acc @ [code1]) r1
               else (case r2 of
                  [] \<Rightarrow> Inl re_error
                | t # r3 \<Rightarrow>
                    if t = CHR '']'' then Inr (acc @ [code1, CChar (CHR ''-'')], r3)
                    else (case class_atom t r3 of
                       Inl e \<Rightarrow> Inl e
                     | Inr (code2, r4) \<Rightarrow>
                         (case (code1, code2) of
                            (CChar lo, CChar hi) \<Rightarrow>
                              if (of_char hi :: nat) < of_char lo then Inl re_error
                              else lex_class (acc @ [CRange lo hi]) r4
                          | _ \<Rightarrow> Inl re_error)))))"
  by pat_completeness auto
termination
  by (relation "measure (\<lambda>(acc, s). length s)")
     (auto dest!: class_atom_length)

lemma lex_class_length:
  "lex_class acc s = Inr (its, r) \<Longrightarrow> length r < length s"
proof (induction acc s arbitrary: its r rule: lex_class.induct)
  case (1 acc)
  then show ?case by simp
next
  case (2 acc c r0)
  show ?case
  proof (cases "c = CHR '']'' \<and> acc \<noteq> []")
    case True
    with "2.prems" show ?thesis by auto
  next
    case False
    then obtain code1 r1 where a1: "class_atom c r0 = Inr (code1, r1)"
      using "2.prems" by (auto split: sum.splits)
    have l1: "length r1 \<le> length r0" using a1 by (rule class_atom_length)
    note ih1 = "2.IH"(1)[OF False a1 refl]
    note ih2 = "2.IH"(2)[OF False a1 refl]
    note ih3 = "2.IH"(3)[OF False a1 refl]
    show ?thesis
    proof (cases r1)
      case Nil
      with "2.prems" False a1 have "lex_class (acc @ [code1]) r1 = Inr (its, r)" by simp
      from ih1[OF Nil this] show ?thesis using Nil by simp
    next
      case (Cons d r2)
      show ?thesis
      proof (cases "d = CHR ''-''")
        case False
        with "2.prems" \<open>\<not> (c = CHR '']'' \<and> acc \<noteq> [])\<close> a1 Cons
        have "lex_class (acc @ [code1]) r1 = Inr (its, r)" by simp
        from ih2[OF Cons False this] l1 show ?thesis by simp
      next
        case dash: True
        have nd: "\<not> d \<noteq> CHR ''-''" using dash by simp
        note nb = \<open>\<not> (c = CHR '']'' \<and> acc \<noteq> [])\<close>
        show ?thesis
        proof (cases r2)
          case Nil
          with "2.prems" nb a1 Cons dash show ?thesis by simp
        next
          case r2: (Cons t r3)
          show ?thesis
          proof (cases "t = CHR '']''")
            case True
            with "2.prems" nb a1 Cons dash r2 l1 show ?thesis by auto
          next
            case nt: False
            from "2.prems" nb a1 Cons dash r2 nt
            obtain code2 r4 where a2: "class_atom t r3 = Inr (code2, r4)"
              by (auto split: sum.splits)
            have l2: "length r4 \<le> length r3" using a2 by (rule class_atom_length)
            from "2.prems" nb a1 Cons dash r2 nt a2
            obtain lo hi where c1: "code1 = CChar lo" and c2: "code2 = CChar hi"
              and le: "\<not> (of_char hi :: nat) < of_char lo"
              and rec: "lex_class (acc @ [CRange lo hi]) r4 = Inr (its, r)"
              by (auto split: citem.splits if_splits)
            have "length r < length r4"
              by (rule ih3[OF Cons nd r2 nt a2 refl refl c1 c2 le rec])
            with l1 l2 Cons r2 show ?thesis by simp
          qed
        qed
      qed
    qed
  qed
qed
text \<open>
  A brace opens a repetition only when it reads \<open>{m}\<close>, \<open>{m,}\<close>, \<open>{,n}\<close> or \<open>{m,n}\<close>;
  otherwise it is an ordinary character.
\<close>

fun digits_value :: "nat \<Rightarrow> string \<Rightarrow> nat" where
  "digits_value acc [] = acc"
| "digits_value acc (c # cs) = digits_value (10 * acc + (of_char c - 48)) cs"

definition lex_brace :: "string \<Rightarrow> (token \<times> string) option" where
  "lex_brace r =
     (case r of
        [] \<Rightarrow> None
      | c # _ \<Rightarrow>
          if c = CHR ''}'' then None
          else
            (let lo = takeWhile is_digit r;
                 r1 = dropWhile is_digit r;
                 comma = (r1 \<noteq> [] \<and> hd r1 = CHR '','');
                 r2 = (if comma then tl r1 else r1);
                 hi = (if comma then takeWhile is_digit r2 else lo);
                 r3 = (if comma then dropWhile is_digit r2 else r2)
             in case r3 of
                  [] \<Rightarrow> None
                | b # r4 \<Rightarrow>
                    if b \<noteq> CHR ''}'' then None
                    else
                      (let mn = (if lo = [] then 0 else digits_value 0 lo);
                           mx = (if hi = [] then None else Some (digits_value 0 hi))
                       in if 4294967295 \<le> mn \<or> (case mx of None \<Rightarrow> False | Some h \<Rightarrow> 4294967295 \<le> h)
                          then Some (TErr Unmodelled, r4)
                          else if (case mx of None \<Rightarrow> False | Some h \<Rightarrow> h < mn)
                          then Some (TErr re_error, r4)
                          else Some (TRep mn mx, r4))))"

lemma lex_brace_length:
  "lex_brace r = Some (t, r') \<Longrightarrow> length r' < length r"
proof -
  assume a: "lex_brace r = Some (t, r')"
  have d: "\<And>xs. length (dropWhile is_digit xs) \<le> length xs"
    by (simp add: length_dropWhile_le)
  have t: "\<And>xs::string. xs \<noteq> [] \<Longrightarrow> length (tl xs) < length xs"
    by (case_tac xs) auto
  define r1 where "r1 = dropWhile is_digit r"
  define comma where "comma = (r1 \<noteq> [] \<and> hd r1 = CHR '','')"
  define r2 where "r2 = (if comma then tl r1 else r1)"
  define r3 where "r3 = (if comma then dropWhile is_digit r2 else r2)"
  have l1: "length r1 \<le> length r" unfolding r1_def by (rule d)
  have l2: "length r2 \<le> length r1" unfolding r2_def by simp
  have l3: "length r3 \<le> length r2" unfolding r3_def using d by simp
  from a obtain b where "r3 = b # r'"
    unfolding lex_brace_def Let_def r3_def r2_def comma_def r1_def
    by (auto split: list.splits if_splits)
  with l1 l2 l3 show ?thesis by simp
qed

text \<open>One token from the front of a non-empty pattern text.\<close>

definition lex1 :: "char \<Rightarrow> string \<Rightarrow> token \<times> string" where
  "lex1 c r =
     (if c = bslash then
        (case r of [] \<Rightarrow> (TErr re_error, [])
         | e # r' \<Rightarrow> if e = CHR ''d'' then (TCls False [CDigit], r')
                     else if is_ascii_alnum e then (TErr Unmodelled, r')
                     else (TLit e, r'))
      else if c = CHR ''['' then
        (let neg = (r \<noteq> [] \<and> hd r = CHR ''^'');
             r0 = (if neg then tl r else r)
         in case lex_class [] r0 of
              Inl e \<Rightarrow> (TErr e, [])
            | Inr (its, r') \<Rightarrow> (TCls neg its, r'))
      else if c = CHR ''{'' then
        (case lex_brace r of None \<Rightarrow> (TLit c, r) | Some tr \<Rightarrow> tr)
      else if c = CHR ''('' then
        (case r of
           [] \<Rightarrow> (TOpen, r)
         | q # r' \<Rightarrow>
             if q = CHR ''?'' then
               (case r' of [] \<Rightarrow> (TErr re_error, [])
                | k # r'' \<Rightarrow> if k = CHR '':'' then (TOpenNC, r'') else (TErr Unmodelled, r''))
             else (TOpen, r))
      else if c = CHR '')'' then (TClose, r)
      else if c = CHR ''|'' then (TBar, r)
      else if c = CHR ''*'' then (TStar, r)
      else if c = CHR ''+'' then (TPlus, r)
      else if c = CHR ''?'' then (TOpt, r)
      else if c = CHR ''.'' then (TDot, r)
      else if c = CHR ''^'' then (TBol, r)
      else if c = CHR ''$'' then (TEol, r)
      else (TLit c, r))"

lemma lex1_length: "lex1 c r = (t, r') \<Longrightarrow> length r' \<le> length r"
proof -
  assume a: "lex1 c r = (t, r')"
  have tl_le: "\<And>xs::string. length (tl xs) \<le> length xs" by simp
  consider (bs) "c = bslash" | (cls) "c \<noteq> bslash" "c = CHR ''[''"
    | (br) "c \<noteq> bslash" "c \<noteq> CHR ''[''" "c = CHR ''{''"
    | (op) "c \<noteq> bslash" "c \<noteq> CHR ''[''" "c \<noteq> CHR ''{''" "c = CHR ''(''"
    | (other) "c \<noteq> bslash" "c \<noteq> CHR ''[''" "c \<noteq> CHR ''{''" "c \<noteq> CHR ''(''"
    by blast
  then show ?thesis
  proof cases
    case bs
    with a show ?thesis by (auto simp: lex1_def split: list.splits if_splits)
  next
    case cls
    show ?thesis
    proof (cases "lex_class [] (if r \<noteq> [] \<and> hd r = CHR ''^'' then tl r else r)")
      case (Inl e)
      with a cls show ?thesis by (simp add: lex1_def Let_def)
    next
      case (Inr p)
      obtain its r1 where p: "p = (its, r1)" by (cases p)
      from lex_class_length[OF Inr[unfolded p]]
      have "length r1 \<le> length r" using tl_le[of r] by (simp split: if_splits)
      with a cls Inr p show ?thesis by (simp add: lex1_def Let_def)
    qed
  next
    case br
    with a show ?thesis
      by (auto simp: lex1_def split: option.splits dest!: lex_brace_length)
  next
    case op
    with a show ?thesis by (auto simp: lex1_def split: list.splits if_splits)
  next
    case other
    with a show ?thesis by (simp add: lex1_def split: if_splits)
  qed
qed

function lex :: "string \<Rightarrow> token list" where
  "lex [] = []"
| "lex (c # r) = (case lex1 c r of (t, r') \<Rightarrow> t # lex r')"
  by pat_completeness auto
termination
  by (relation "measure length") (auto dest!: lex1_length[OF sym])

datatype item = IAtom regex | IRep regex | IAt regex

fun item_regex :: "item \<Rightarrow> regex" where
  "item_regex (IAtom r) = r"
| "item_regex (IRep r) = r"
| "item_regex (IAt r) = r"

definition seq_of :: "item list \<Rightarrow> regex" where
  "seq_of its = foldr (\<lambda>i r. Seq (item_regex i) r) its Eps"

fun alt_of :: "regex list \<Rightarrow> regex" where
  "alt_of [] = Eps"
| "alt_of [r] = r"
| "alt_of (r # rs) = Alt r (alt_of rs)"

fun nullable :: "regex \<Rightarrow> bool" where
  "nullable (Lit c) = False"
| "nullable Dot = False"
| "nullable (Cls neg its) = False"
| "nullable Bol = True"
| "nullable Eol = True"
| "nullable Eps = True"
| "nullable (Seq a b) = (nullable a \<and> nullable b)"
| "nullable (Alt a b) = (nullable a \<or> nullable b)"
| "nullable (Rep lo hi r) = (lo = 0 \<or> nullable r)"
| "nullable (Grp n r) = nullable r"

text \<open>
  A frame is an open group: its number (\<open>None\<close> for \<open>(?:\<close> and for the pattern as a
  whole), the alternatives already closed by \<open>|\<close>, and the items of the current one.
\<close>

type_synonym frame = "nat option \<times> regex list \<times> item list"

definition close_frame :: "frame \<Rightarrow> regex" where
  "close_frame f =
     (case f of (g, alts, its) \<Rightarrow>
        (let body = alt_of (alts @ [seq_of its])
         in case g of None \<Rightarrow> body | Some n \<Rightarrow> Grp n body))"

fun push_item :: "item \<Rightarrow> frame list \<Rightarrow> frame list" where
  "push_item i [] = []"
| "push_item i ((g, alts, its) # st) = (g, alts, its @ [i]) # st"

text \<open>
  A repetition applies to the item before it. With nothing or an anchor before it, or
  after another repetition, the pattern is malformed. A \<open>?\<close> or \<open>+\<close> right after a
  repetition asks for a lazy or possessive one, and a repeated body that can match the
  empty string brings in the engine's guard against empty iterations: both lie outside
  the fragment.
\<close>

definition repeat_item ::
  "nat \<Rightarrow> nat option \<Rightarrow> token list \<Rightarrow> frame list \<Rightarrow> exn + frame list" where
  "repeat_item lo hi ts st =
     (case st of
        [] \<Rightarrow> Inl Unmodelled
      | (g, alts, its) # st' \<Rightarrow>
          if its = [] then Inl re_error
          else (case last its of
             IAt a \<Rightarrow> Inl re_error
           | IRep a \<Rightarrow> Inl re_error
           | IAtom r \<Rightarrow>
               if (case ts of TOpt # _ \<Rightarrow> True | TPlus # _ \<Rightarrow> True | _ \<Rightarrow> False)
               then Inl Unmodelled
               else if nullable r then Inl Unmodelled
               else Inr ((g, alts, butlast its @ [IRep (Rep lo hi r)]) # st')))"

fun parse :: "token list \<Rightarrow> frame list \<Rightarrow> nat \<Rightarrow> exn + (regex \<times> nat)" where
  "parse [] st n = (case st of [f] \<Rightarrow> Inr (close_frame f, n - 1) | _ \<Rightarrow> Inl re_error)"
| "parse (TLit c # ts) st n = parse ts (push_item (IAtom (Lit c)) st) n"
| "parse (TDot # ts) st n = parse ts (push_item (IAtom Dot) st) n"
| "parse (TCls neg cs # ts) st n = parse ts (push_item (IAtom (Cls neg cs)) st) n"
| "parse (TBol # ts) st n = parse ts (push_item (IAt Bol) st) n"
| "parse (TEol # ts) st n = parse ts (push_item (IAt Eol) st) n"
| "parse (TStar # ts) st n =
     (case repeat_item 0 None ts st of Inl e \<Rightarrow> Inl e | Inr st' \<Rightarrow> parse ts st' n)"
| "parse (TPlus # ts) st n =
     (case repeat_item 1 None ts st of Inl e \<Rightarrow> Inl e | Inr st' \<Rightarrow> parse ts st' n)"
| "parse (TOpt # ts) st n =
     (case repeat_item 0 (Some 1) ts st of Inl e \<Rightarrow> Inl e | Inr st' \<Rightarrow> parse ts st' n)"
| "parse (TRep lo hi # ts) st n =
     (case repeat_item lo hi ts st of Inl e \<Rightarrow> Inl e | Inr st' \<Rightarrow> parse ts st' n)"
| "parse (TOpen # ts) st n = parse ts ((Some n, [], []) # st) (Suc n)"
| "parse (TOpenNC # ts) st n = parse ts ((None, [], []) # st) n"
| "parse (TClose # ts) st n =
     (case st of
        f # p # st' \<Rightarrow> parse ts (push_item (IAtom (close_frame f)) (p # st')) n
      | _ \<Rightarrow> Inl re_error)"
| "parse (TBar # ts) st n =
     (case st of
        (g, alts, its) # st' \<Rightarrow> parse ts ((g, alts @ [seq_of its], []) # st') n
      | [] \<Rightarrow> Inl Unmodelled)"
| "parse (TErr e # ts) st n = Inl e"

text \<open>\<open>re.compile\<close>: the syntax tree of a pattern and its number of groups.\<close>

definition re_compile :: "string \<Rightarrow> exn + (regex \<times> nat)" where
  "re_compile pat = parse (lex pat) [(None, [], [])] 1"

subsection \<open>Match objects, \<open>re.match\<close> and \<open>re.finditer\<close>\<close>

record rmatch =
  m_start :: nat
  m_text :: string
  m_caps :: caps
  m_ngroups :: nat

definition mk_match :: "nat \<Rightarrow> string \<Rightarrow> string \<Rightarrow> mstate \<Rightarrow> rmatch" where
  "mk_match n inp rest st =
     \<lparr> m_start = length inp - length rest,
       m_text = take (length rest - length (fst st)) rest,
       m_caps = snd st,
       m_ngroups = n \<rparr>"

text \<open>\<open>m.group(i)\<close>: \<open>None\<close> for a group that took no part in the match.\<close>

definition match_group :: "rmatch \<Rightarrow> nat \<Rightarrow> exn + string option" where
  "match_group m i =
     (if i = 0 then Inr (Some (m_text m))
      else if i \<le> m_ngroups m then Inr (map_of (m_caps m) i)
      else Inl (Exn ''IndexError'' (Some ''no such group'')))"

definition re_match :: "string \<Rightarrow> string \<Rightarrow> exn + rmatch option" where
  "re_match pat s =
     (case re_compile pat of
        Inl e \<Rightarrow> Inl e
      | Inr (r, n) \<Rightarrow>
          Inr (case ms s r (s, []) of [] \<Rightarrow> None | st # _ \<Rightarrow> Some (mk_match n s s st)))"

text \<open>
  The scan of \<open>finditer\<close>: try at the current position, move one character on after a
  failure and to the end of the match after a success. An empty match is outside the
  fragment.
\<close>

function find_all :: "regex \<Rightarrow> nat \<Rightarrow> string \<Rightarrow> string \<Rightarrow> exn + rmatch list" where
  "find_all r n inp rest =
     (case ms inp r (rest, []) of
        [] \<Rightarrow> (case rest of [] \<Rightarrow> Inr [] | _ # xs \<Rightarrow> find_all r n inp xs)
      | st # _ \<Rightarrow>
          if length (fst st) < length rest
          then (case find_all r n inp (fst st) of
                  Inl e \<Rightarrow> Inl e
                | Inr rs \<Rightarrow> Inr (mk_match n inp rest st # rs))
          else Inl Unmodelled)"
  by pat_completeness auto
termination
  by (relation "measure (\<lambda>(r, n, inp, rest). length rest)") auto

declare find_all.simps [simp del]

definition re_finditer :: "string \<Rightarrow> string \<Rightarrow> exn + rmatch list" where
  "re_finditer pat s =
     (case re_compile pat of Inl e \<Rightarrow> Inl e | Inr (r, n) \<Rightarrow> find_all r n s s)"


section \<open>URL patterns\<close>

text \<open>\<open>int(s)\<close> on a string, in base ten.\<close>

definition is_space :: "char \<Rightarrow> bool" where
  "is_space c = ((of_char c :: nat) \<in> {9, 10, 11, 12, 13, 28, 29, 30, 31, 32, 133, 160})"

definition strip :: "string \<Rightarrow> string" where
  "strip s = rev (dropWhile is_space (rev (dropWhile is_space s)))"

fun int_digits :: "bool \<Rightarrow> nat \<Rightarrow> string \<Rightarrow> nat option" where
  "int_digits prev acc [] = (if prev then Some acc else None)"
| "int_digits prev acc (c # cs) =
     (if is_digit c then int_digits True (10 * acc + (of_char c - 48)) cs
      else if c = CHR ''_'' \<and> prev then int_digits False acc cs
      else None)"

text \<open>
  CPython refuses to convert a decimal string of more than 4300 digits (its default
  limit) and raises \<open>ValueError\<close>, as it does for a string that is not a number.
\<close>

definition py_int :: "string \<Rightarrow> int option" where
  "py_int s =
     (let t = strip s
      in if 4300 < length (filter is_digit t) then None
         else case t of
           [] \<Rightarrow> None
         | c # cs \<Rightarrow>
             if c = CHR ''-'' then map_option (\<lambda>n. - int n) (int_digits False 0 cs)
             else if c = CHR ''+'' then map_option int (int_digits False 0 cs)
             else map_option int (int_digits False 0 t))"

text \<open>
  \<open>float(s)\<close>: the value is kept as the decimal text it was read from, and only the
  shape \<open>digits\<close>, \<open>digits.\<close>, \<open>digits.digits\<close> is covered.
\<close>

definition py_float :: "string \<Rightarrow> exn + string" where
  "py_float s =
     (let a = takeWhile is_digit s; r = dropWhile is_digit s
      in if a \<noteq> [] \<and> (r = [] \<or> (hd r = CHR ''.'' \<and> list_all is_digit (tl r)))
         then Inr s else Inl Unmodelled)"

datatype pyval = PInt int | PFloat string | PStr string | PNone

type_synonym params = "(string \<times> pyval) list"

text \<open>A \<open>dict\<close> keeps its keys in insertion order; assigning to a key that is present keeps its place.\<close>

fun dict_set :: "'k \<Rightarrow> 'v \<Rightarrow> ('k \<times> 'v) list \<Rightarrow> ('k \<times> 'v) list" where
  "dict_set k v [] = [(k, v)]"
| "dict_set k v (p # ps) = (if fst p = k then (k, v) # ps else p # dict_set k v ps)"

record URLPattern =
  pattern :: string
  regex_pattern :: string
  parameter_names :: "(string \<times> string) list"

definition parameter_regex :: string where
  "parameter_regex = ''<(?:([^:>]+):)?([^>]+)>''"

definition type_patterns :: "(string \<times> string) list" where
  "type_patterns =
     [(''string'', ''([^/]+)''),
      (''int'', ''('' @ [bslash] @ ''d+)''),
      (''float'', ''('' @ [bslash] @ ''d+'' @ [bslash] @ ''.?'' @ [bslash] @ ''d*)''),
      (''path'', ''(.+)''),
      (''uuid'', ''([0-9a-f]{8}-[0-9a-f]{4}-[0-9a-f]{4}-[0-9a-f]{4}-[0-9a-f]{12})'')]"

text \<open>
  The loop of \<open>_compile_pattern\<close> over the placeholders found in the template: it threads
  the pattern text being rewritten and the list of parameter names.
\<close>

fun compile_loop ::
  "rmatch list \<Rightarrow> string \<Rightarrow> (string \<times> string) list \<Rightarrow> exn + (string \<times> (string \<times> string) list)" where
  "compile_loop [] rp names = Inr (rp, names)"
| "compile_loop (m # rest) rp names =
     (case match_group m 1 of
        Inl e \<Rightarrow> Inl e
      | Inr g1 \<Rightarrow>
          (case match_group m 2 of
             Inl e \<Rightarrow> Inl e
           | Inr None \<Rightarrow> Inl Unmodelled
           | Inr (Some param_name) \<Rightarrow>
               (let param_type = (case g1 of None \<Rightarrow> ''string''
                                  | Some t \<Rightarrow> if t = [] then ''string'' else t);
                    type_pattern = (case map_of type_patterns param_type of
                                      None \<Rightarrow> ''([^/]+)'' | Some p \<Rightarrow> p)
                in compile_loop rest (replace_first (m_text m) type_pattern rp)
                                     (names @ [(param_name, param_type)]))))"

definition URLPattern_init :: "string \<Rightarrow> exn + URLPattern" where
  "URLPattern_init p =
     (case re_finditer parameter_regex p of
        Inl e \<Rightarrow> Inl e
      | Inr found \<Rightarrow>
          (case compile_loop found p [] of
             Inl e \<Rightarrow> Inl e
           | Inr (rp, names) \<Rightarrow>
               Inr \<lparr> pattern = p, regex_pattern = ''^'' @ rp @ ''$'', parameter_names = names \<rparr>))"

text \<open>
  The loop of \<open>match\<close> over the parameter names: \<open>ValueError\<close> and \<open>TypeError\<close> raised by
  a conversion end the match with \<open>None\<close>; \<open>int(None)\<close> and \<open>float(None)\<close> raise
  \<open>TypeError\<close>.
\<close>

fun convert_loop ::
  "rmatch \<Rightarrow> (string \<times> string) list \<Rightarrow> nat \<Rightarrow> params \<Rightarrow> exn + params option" where
  "convert_loop m [] i ps = Inr (Some ps)"
| "convert_loop m ((param_name, param_type) # rest) i ps =
     (case match_group m (i + 1) of
        Inl e \<Rightarrow> Inl e
      | Inr raw_value \<Rightarrow>
          if param_type = ''int'' then
            (case raw_value of
               None \<Rightarrow> Inr None
             | Some s \<Rightarrow>
                 (case py_int s of
                    None \<Rightarrow> Inr None
                  | Some v \<Rightarrow> convert_loop m rest (i + 1) (dict_set param_name (PInt v) ps)))
          else if param_type = ''float'' then
            (case raw_value of
               None \<Rightarrow> Inr None
             | Some s \<Rightarrow>
                 (case py_float s of
                    Inl e \<Rightarrow> Inl e
                  | Inr v \<Rightarrow> convert_loop m rest (i + 1) (dict_set param_name (PFloat v) ps)))
          else convert_loop m rest (i + 1)
                 (dict_set param_name (case raw_value of None \<Rightarrow> PNone | Some s \<Rightarrow> PStr s) ps))"

definition URLPattern_match :: "URLPattern \<Rightarrow> string \<Rightarrow> exn + params option" where
  "URLPattern_match p url =
     (if regex_pattern p = [] then Inr (if url = pattern p then Some [] else None)
      else case re_match (regex_pattern p) url of
             Inl e \<Rightarrow> Inl e
           | Inr None \<Rightarrow> Inr None
           | Inr (Some m) \<Rightarrow> convert_loop m (parameter_names p) 0 [])"

section \<open>The route table\<close>

record ('h, 'm) route_info =
  handler :: 'h
  middlewares :: "'m list"

record ('h, 'm) dynamic_route =
  dr_pattern :: URLPattern
  dr_original_pattern :: string
  dr_method :: string
  dr_handler :: 'h
  dr_middlewares :: "'m list"

record ('h, 'm) RouteManager =
  static_routes :: "string \<rightharpoonup> (string \<rightharpoonup> ('h, 'm) route_info)"
  dynamic_routes :: "('h, 'm) dynamic_route list"

definition RouteManager_init :: "('h, 'm) RouteManager" where
  "RouteManager_init = \<lparr> static_routes = Map.empty, dynamic_routes = [] \<rparr>"

definition add_route ::
  "('h, 'm) RouteManager \<Rightarrow> string \<Rightarrow> string \<Rightarrow> 'h \<Rightarrow> 'm list option
     \<Rightarrow> exn + ('h, 'm) RouteManager" where
  "add_route rm pat meth h mws =
     (let mw = (case mws of None \<Rightarrow> [] | Some l \<Rightarrow> l)
      in if CHR ''<'' \<in> set pat \<and> CHR ''>'' \<in> set pat then
           (case URLPattern_init pat of
              Inl e \<Rightarrow> Inl e
            | Inr url_pattern \<Rightarrow>
                Inr (rm\<lparr> dynamic_routes := dynamic_routes rm @
                      [\<lparr> dr_pattern = url_pattern, dr_original_pattern = pat,
                         dr_method = meth, dr_handler = h, dr_middlewares = mw \<rparr>] \<rparr>))
         else
           Inr (rm\<lparr> static_routes := (static_routes rm)
                  (pat \<mapsto> (case static_routes rm pat of None \<Rightarrow> Map.empty | Some d \<Rightarrow> d)
                             (meth \<mapsto> \<lparr> handler = h, middlewares = mw \<rparr>)) \<rparr>))"

fun scan_dynamic ::
  "('h, 'm) dynamic_route list \<Rightarrow> string \<Rightarrow> string \<Rightarrow> exn + ('h option \<times> params \<times> 'm list)" where
  "scan_dynamic [] path meth = Inr (None, [], [])"
| "scan_dynamic (route # rest) path meth =
     (if dr_method route = meth then
        (case URLPattern_match (dr_pattern route) path of
           Inl e \<Rightarrow> Inl e
         | Inr (Some ps) \<Rightarrow> Inr (Some (dr_handler route), ps, dr_middlewares route)
         | Inr None \<Rightarrow> scan_dynamic rest path meth)
      else scan_dynamic rest path meth)"

definition find_route ::
  "('h, 'm) RouteManager \<Rightarrow> string \<Rightarrow> string \<Rightarrow> exn + ('h option \<times> params \<times> 'm list)" where
  "find_route rm path meth =
     (case static_routes rm path of
        None \<Rightarrow> scan_dynamic (dynamic_routes rm) path meth
      | Some by_method \<Rightarrow>
          (case by_method meth of
             None \<Rightarrow> scan_dynamic (dynamic_routes rm) path meth
           | Some route_info \<Rightarrow> Inr (Some (handler route_info), [], middlewares route_info)))"

text \<open>
  The registration phase: the routes of an application are added one after the other
  to an empty table; \<open>resolve_after regs\<close> is the lookup in the table so built.
\<close>

fun register_all ::
  "('h, 'm) RouteManager \<Rightarrow> (string \<times> string \<times> 'h \<times> 'm list option) list
     \<Rightarrow> exn + ('h, 'm) RouteManager" where
  "register_all rm [] = Inr rm"
| "register_all rm ((pat, meth, h, mws) # rest) =
     (case add_route rm pat meth h mws of
        Inl e \<Rightarrow> Inl e
      | Inr rm' \<Rightarrow> register_all rm' rest)"

definition resolve_after ::
  "(string \<times> string \<times> 'h \<times> 'm list option) list \<Rightarrow> string \<Rightarrow> string
     \<Rightarrow> exn + ('h option \<times> params \<times> 'm list)" where
  "resolve_after regs path meth =
     (case register_all RouteManager_init regs of
        Inl e \<Rightarrow> Inl e
      | Inr rm \<Rightarrow> find_route rm path meth)"

text \<open>\<open>URLPattern(template).match(url)\<close>\<close>

definition template_match :: "string \<Rightarrow> string \<Rightarrow> exn + params option" where
  "template_match t url =
     (case URLPattern_init t of Inl e \<Rightarrow> Inl e | Inr p \<Rightarrow> URLPattern_match p url)"

text \<open>The entry of the exact-match index for a path and a method, if any.\<close>

definition static_entry ::
  "('h, 'm) RouteManager \<Rightarrow> string \<Rightarrow> string \<Rightarrow> ('h, 'm) route_info option" where
  "static_entry rm path meth =
     (case static_routes rm path of None \<Rightarrow> None | Some by_method \<Rightarrow> by_method meth)"

definition is_dynamic :: "string \<Rightarrow> bool" where
  "is_dynamic pat = (CHR ''<'' \<in> set pat \<and> CHR ''>'' \<in> set pat)"

section \<open>Text utilities\<close>

definition crlf :: string where
  "crlf = [cret, newline]"

text \<open>\<open>str(n)\<close> for a natural number and for an integer.\<close>

function str_nat :: "nat \<Rightarrow> string" where
  "str_nat n =
     (if n < 10 then [char_of (48 + n)]
      else str_nat (n div 10) @ [char_of (48 + n mod 10)])"
  by pat_completeness auto
termination
  by (relation "measure id") auto

declare str_nat.simps [simp del]

definition str_int :: "int \<Rightarrow> string" where
  "str_int i = (if i < 0 then CHR ''-'' # str_nat (nat (- i)) else str_nat (nat i))"

text \<open>\<open>sep.join(xs)\<close>\<close>

fun join :: "string \<Rightarrow> string list \<Rightarrow> string" where
  "join sep [] = []"
| "join sep [x] = x"
| "join sep (x # y # ys) = x @ sep @ join sep (y # ys)"

text \<open>\<open>s.split(sep)\<close> for a non-empty separator; \<open>cur\<close> holds the current piece, reversed.\<close>

function split_acc :: "string \<Rightarrow> string \<Rightarrow> string \<Rightarrow> string list" where
  "split_acc sep cur [] = [rev cur]"
| "split_acc sep cur (x # xs) =
     (if sep \<noteq> [] \<and> prefix sep (x # xs)
      then rev cur # split_acc sep [] (drop (length sep) (x # xs))
      else split_acc sep (x # cur) xs)"
  by pat_completeness auto
termination
  by (relation "measure (\<lambda>(sep, cur, s). length s)") (auto simp: neq_Nil_conv)

definition split :: "string \<Rightarrow> string \<Rightarrow> string list" where
  "split s sep = split_acc sep [] s"

text \<open>\<open>sub in s\<close> for strings.\<close>

fun contains :: "string \<Rightarrow> string \<Rightarrow> bool" where
  "contains sub [] = (sub = [])"
| "contains sub (x # xs) = (prefix sub (x # xs) \<or> contains sub xs)"

text \<open>
  Case conversion on the code points below 256. The upper-case forms of \<open>0xB5\<close>, \<open>0xDF\<close>
  and \<open>0xFF\<close> lie outside that range or are two characters long.
\<close>

definition lower_char :: "char \<Rightarrow> char" where
  "lower_char c =
     (let n = (of_char c :: nat)
      in if (65 \<le> n \<and> n \<le> 90) \<or> (192 \<le> n \<and> n \<le> 222 \<and> n \<noteq> 215)
         then char_of (n + 32) else c)"

definition lower :: "string \<Rightarrow> string" where
  "lower s = map lower_char s"

definition upper_char :: "char \<Rightarrow> char" where
  "upper_char c =
     (let n = (of_char c :: nat)
      in if (97 \<le> n \<and> n \<le> 122) \<or> (224 \<le> n \<and> n \<le> 254 \<and> n \<noteq> 247)
         then char_of (n - 32) else c)"

definition upper :: "string \<Rightarrow> exn + string" where
  "upper s =
     (if \<exists>c \<in> set s. (of_char c :: nat) \<in> {181, 223, 255} then Inl Unmodelled
      else Inr (map upper_char s))"

text \<open>
  UTF-8. A character below 128 is one byte, one from 128 to 255 two bytes. Decoding
  covers the byte sequences of such characters; a byte that can start no character
  raises \<open>UnicodeDecodeError\<close>, and the longer sequences are outside the range.
\<close>

definition encode_char :: "char \<Rightarrow> string" where
  "encode_char c =
     (let n = (of_char c :: nat)
      in if n < 128 then [c] else [char_of (192 + n div 64), char_of (128 + n mod 64)])"

definition encode_utf8 :: "string \<Rightarrow> string" where
  "encode_utf8 s = concat (map encode_char s)"

definition unicode_decode_error :: exn where
  "unicode_decode_error = Exn ''UnicodeDecodeError'' None"

fun decode_utf8 :: "string \<Rightarrow> exn + string" where
  "decode_utf8 [] = Inr []"
| "decode_utf8 (b # bs) =
     (let n = (of_char b :: nat)
      in if n < 128 then map_sum id ((#) b) (decode_utf8 bs)
         else if n < 194 \<or> 245 \<le> n then Inl unicode_decode_error
         else if 196 \<le> n then Inl Unmodelled
         else (case bs of
                 [] \<Rightarrow> Inl unicode_decode_error
               | b2 # bs' \<Rightarrow>
                   (let k = (of_char b2 :: nat)
                    in if 128 \<le> k \<and> k < 192
                       then map_sum id ((#) (char_of ((n - 192) * 64 + (k - 128))))
                              (decode_utf8 bs')
                       else Inl unicode_decode_error)))"

section \<open>The response builder\<close>

text \<open>\<open>SocketHTTPServer.build_http_response\<close>\<close>

definition build_http_response :: "string \<Rightarrow> (string \<times> string) list \<Rightarrow> string \<Rightarrow> string" where
  "build_http_response status hdrs body =
     (let response_lines = [''HTTP/1.1 '' @ status];
          response_lines = response_lines @ map (\<lambda>(header_name, header_value).
                               header_name @ '': '' @ header_value) hdrs;
          has_content_length = list_ex (\<lambda>h. lower (fst h) = ''content-length'') hdrs;
          response_lines = (if \<not> has_content_length
                            then response_lines @ [''Content-Length: '' @ str_nat (length body)]
                            else response_lines);
          response_lines = response_lines @ [''Connection: close''];
          response_header = join crlf response_lines @ crlf @ crlf
      in encode_utf8 response_header @ body)"

text \<open>\<open>SocketHTTPServer.create_error_response\<close>\<close>

definition status_messages :: "(int \<times> string) list" where
  "status_messages =
     [(400, ''Bad Request''), (404, ''Not Found''), (500, ''Internal Server Error'')]"

definition create_error_response :: "int \<Rightarrow> string \<Rightarrow> string" where
  "create_error_response status_code message =
     (let status_text = (case map_of status_messages status_code of
                           None \<Rightarrow> ''Error'' | Some t \<Rightarrow> t);
          body = encode_utf8 (''<h1>'' @ str_int status_code @ '' '' @ status_text @ ''</h1><p>''
                              @ message @ ''</p>'')
      in encode_utf8 (''HTTP/1.1 '' @ str_int status_code @ '' '' @ status_text @ crlf
                      @ ''Content-Type: text/html'' @ crlf
                      @ ''Content-Length: '' @ str_nat (length body) @ crlf
                      @ ''Connection: close'' @ crlf
                      @ crlf)
         @ body)"


section \<open>Requests\<close>

text \<open>
  The functions of the standard library that the request path calls and that are not
  reproduced here are parameters of the model: \<open>urllib.parse.unquote\<close>,
  \<open>urllib.parse.parse_qsl\<close>, \<open>urllib.parse.parse_qs\<close> and \<open>json.loads\<close>, whose result is
  \<open>None\<close> when it raises \<open>json.JSONDecodeError\<close>. The type \<open>'j\<close> is that of decoded JSON
  values.
\<close>

record 'j stdlib =
  unquote :: "string \<Rightarrow> string"
  parse_qsl :: "string \<Rightarrow> (string \<times> string) list"
  parse_qs :: "string \<Rightarrow> (string \<times> string list) list"
  json_loads :: "string \<Rightarrow> 'j option"

text \<open>
  \<open>environ['wsgi.input']\<close> is a text stream when the request comes from
  \<open>SocketHTTPServer\<close>, which wraps the body in a \<open>StringIO\<close>, and a byte stream under a
  WSGI server such as \<open>wsgiref\<close>.
\<close>

datatype wsgi_input = TextInput string | BytesInput string

text \<open>
  The WSGI environment, by the keys the application reads: each is absent (\<open>None\<close>) or a
  string; the remaining string entries are kept in \<open>other\<close>.
\<close>

record environ =
  REQUEST_METHOD :: "string option"
  PATH_INFO :: "string option"
  QUERY_STRING :: "string option"
  CONTENT_TYPE :: "string option"
  CONTENT_LENGTH :: "string option"
  wsgi_input :: "wsgi_input option"
  other :: "(string \<times> string) list"

text \<open>\<open>SocketHTTPServer.parse_http_request\<close>\<close>

definition unpack_error :: "nat \<Rightarrow> exn" where
  "unpack_error n =
     (if n < 3
      then Exn ''ValueError'' (Some (''not enough values to unpack (expected 3, got ''
                                     @ str_nat n @ '')''))
      else Exn ''ValueError'' (Some ''too many values to unpack (expected 3)''))"

text \<open>The loop over the header lines, up to the first empty line; it returns the index reached.\<close>

fun parse_headers ::
  "string list \<Rightarrow> nat \<Rightarrow> (string \<times> string) list \<Rightarrow> exn + (nat \<times> (string \<times> string) list)" where
  "parse_headers [] i hs = Inr (i, hs)"
| "parse_headers (header_line # rest) i hs =
     (if header_line = [] then Inr (i, hs)
      else if CHR '':'' \<in> set header_line then
        (let key = takeWhile (\<lambda>c. c \<noteq> CHR '':'') header_line;
             val = tl (dropWhile (\<lambda>c. c \<noteq> CHR '':'') header_line)
         in case upper (strip key) of
              Inl e \<Rightarrow> Inl e
            | Inr k \<Rightarrow>
                parse_headers rest (i + 1)
                  (dict_set (map (\<lambda>c. if c = CHR ''-'' then CHR ''_'' else c) k) (strip val) hs))
      else parse_headers rest (i + 1) hs)"

definition parse_http_request ::
  "'j stdlib \<Rightarrow> string \<Rightarrow> int \<Rightarrow> string \<Rightarrow> string \<Rightarrow> exn + environ" where
  "parse_http_request lib host port request_data client_address =
     (let lines = split request_data crlf;
          request_line = hd lines;
          parts = split request_line '' ''
      in case parts of
           [meth, path0, protocol] \<Rightarrow>
             (let path = (if CHR ''?'' \<in> set path0
                          then takeWhile (\<lambda>c. c \<noteq> CHR ''?'') path0 else path0);
                  query_string = (if CHR ''?'' \<in> set path0
                                  then tl (dropWhile (\<lambda>c. c \<noteq> CHR ''?'') path0) else [])
              in case parse_headers (tl lines) 1 [] of
                   Inl e \<Rightarrow> Inl e
                 | Inr (i, hs) \<Rightarrow>
                     (let body_start = i + 1;
                          body = (if body_start < length lines
                                  then join crlf (drop body_start lines) else [])
                      in Inr \<lparr> REQUEST_METHOD = Some meth,
                               PATH_INFO = Some (unquote lib path),
                               QUERY_STRING = Some query_string,
                               CONTENT_TYPE = Some (case map_of hs ''CONTENT_TYPE'' of
                                                      None \<Rightarrow> [] | Some v \<Rightarrow> v),
                               CONTENT_LENGTH = Some (case map_of hs ''CONTENT_LENGTH'' of
                                                        None \<Rightarrow> [] | Some v \<Rightarrow> v),
                               wsgi_input = Some (TextInput body),
                               other =
                                 [(''SERVER_NAME'', host), (''SERVER_PORT'', str_int port),
                                  (''REMOTE_ADDR'', client_address),
                                  (''REMOTE_HOST'', client_address),
                                  (''wsgi.url_scheme'', ''http'')]
                                 @ map (\<lambda>(k, v). (''HTTP_'' @ k, v))
                                     (filter (\<lambda>(k, v). k \<noteq> ''CONTENT_TYPE''
                                                        \<and> k \<noteq> ''CONTENT_LENGTH'') hs) \<rparr>))
         | _ \<Rightarrow> Inl (unpack_error (length parts)))"

text \<open>
  The request context built by \<open>Request.__init__\<close>. The constructor copies every entry
  of the environ into an attribute named after its key; \<open>environ_of\<close> keeps the environ
  for these. The attribute \<open>method\<close> is the field \<open>http_method\<close>.
\<close>

datatype form_value = One string | Many "string list"

datatype 'j body = Mapping "(string \<times> form_value) list" | Json 'j

record 'j request =
  environ_of :: environ
  http_method :: string
  query_params :: "(string \<times> string) list"
  path_info :: string
  body :: "'j body"
  body_raw :: "wsgi_input option"

definition read_input :: "wsgi_input \<Rightarrow> nat \<Rightarrow> wsgi_input" where
  "read_input inp n =
     (case inp of TextInput s \<Rightarrow> TextInput (take n s) | BytesInput b \<Rightarrow> BytesInput (take n b))"

text \<open>\<open>request_body.decode('utf-8')\<close>: a \<open>str\<close> has no method \<open>decode\<close>.\<close>

definition squote :: string where
  "squote = [CHR 0x27]"

definition decode_body :: "wsgi_input \<Rightarrow> exn + string" where
  "decode_body request_body =
     (case request_body of
        TextInput s \<Rightarrow>
          Inl (Exn ''AttributeError''
                 (Some (squote @ ''str'' @ squote @ '' object has no attribute ''
                        @ squote @ ''decode'' @ squote)))
      | BytesInput b \<Rightarrow> decode_utf8 b)"

definition Request_init :: "'j stdlib \<Rightarrow> environ \<Rightarrow> exn + 'j request" where
  "Request_init lib env =
     (let meth = (case REQUEST_METHOD env of None \<Rightarrow> ''GET'' | Some m \<Rightarrow> m);
          query_string = (case QUERY_STRING env of None \<Rightarrow> [] | Some q \<Rightarrow> q);
          qp = (if query_string \<noteq> []
                then fold (\<lambda>(key, val) d. dict_set key val d) (parse_qsl lib query_string) []
                else []);
          path = (case PATH_INFO env of None \<Rightarrow> ''/'' | Some p \<Rightarrow> p);
          req = \<lparr> environ_of = env, http_method = meth, query_params = qp, path_info = path,
                  body = Mapping [], body_raw = None \<rparr>;
          content_length = (case CONTENT_LENGTH env of None \<Rightarrow> [] | Some c \<Rightarrow> c)
      in if content_length = [] then Inr req
         else case py_int content_length of
           None \<Rightarrow> Inl (Exn ''ValueError'' None)
         | Some n \<Rightarrow>
             if n \<le> 0 then Inr req
             else case wsgi_input env of
               None \<Rightarrow> Inl (Exn ''KeyError'' (Some (squote @ ''wsgi.input'' @ squote)))
             | Some inp \<Rightarrow>
                 (let request_body = read_input inp (nat n);
                      content_type = (case CONTENT_TYPE env of None \<Rightarrow> [] | Some c \<Rightarrow> c)
                  in if contains ''application/x-www-form-urlencoded'' content_type then
                       (case decode_body request_body of
                          Inl e \<Rightarrow> Inl e
                        | Inr txt \<Rightarrow>
                            Inr (req\<lparr> body := Mapping
                                   (fold (\<lambda>(key, val) d.
                                            dict_set key (if length val = 1 then One (hd val)
                                                          else Many val) d)
                                         (parse_qs lib txt) []) \<rparr>))
                     else if contains ''application/json'' content_type then
                       (case decode_body request_body of
                          Inl e \<Rightarrow> Inl e
                        | Inr txt \<Rightarrow>
                            (case json_loads lib txt of
                               Some j \<Rightarrow> Inr (req\<lparr> body := Json j \<rparr>)
                             | None \<Rightarrow> Inr (req\<lparr> body := Mapping [] \<rparr>)))
                     else Inr (req\<lparr> body_raw := Some request_body \<rparr>)))"

section \<open>Responses\<close>

text \<open>
  The response context. The field \<open>app\<close> records whether an application object was
  passed; the object itself is read only by \<open>redirect\<close>.
\<close>

record response =
  status_code :: string
  resp_text :: string
  app :: bool
  headers :: "(string \<times> string) list"

definition Response_init :: "string option \<Rightarrow> string option \<Rightarrow> bool \<Rightarrow> response" where
  "Response_init status txt a =
     \<lparr> status_code = (case status of None \<Rightarrow> ''404 Not Found'' | Some s \<Rightarrow> s),
       resp_text = (case txt of None \<Rightarrow> ''Route not Found'' | Some t \<Rightarrow> t),
       app = a,
       headers = [(''Content-Type'', ''text/plain'')] \<rparr>"

text \<open>
  What a WSGI application hands back: the status and headers of its last call of
  \<open>start_response\<close>, if it called it, and the chunks of the body.
\<close>

datatype chunk = StrChunk string | BytesChunk string

type_synonym wsgi_result = "(string \<times> (string \<times> string) list) option \<times> chunk list"

definition as_wsgi :: "response \<Rightarrow> wsgi_result" where
  "as_wsgi r =
     (let hs = (if headers r = [] then [(''Content-Type'', ''text/plain'')] else headers r)
      in (Some (status_code r, hs), [BytesChunk (encode_utf8 (resp_text r))]))"

section \<open>The application\<close>

text \<open>
  A middleware is a function that may change the request or raise, or a value that is
  not a function. A handler receives the request, the response and the parameters, and
  returns the response as it left it, or raises.
\<close>

text \<open>
  Of the attributes of the application, \<open>__call__\<close> reads \<open>route_manager\<close> and
  \<open>middlewares\<close> only; \<open>route_map\<close>, \<open>routes\<close> and \<open>middlewares_for_route\<close> are left out.
\<close>

datatype 'j middleware = Function "'j request \<Rightarrow> exn + 'j request" | NotAFunction

type_synonym 'j handler_fn = "'j request \<Rightarrow> response \<Rightarrow> params \<Rightarrow> exn + response"

record 'j live_rocket =
  route_manager :: "('j handler_fn, 'j middleware) RouteManager"
  app_middlewares :: "'j middleware list"

fun run_middlewares :: "string \<Rightarrow> 'j middleware list \<Rightarrow> 'j request \<Rightarrow> exn + 'j request" where
  "run_middlewares msg [] req = Inr req"
| "run_middlewares msg (Function f # rest) req =
     (case f req of Inl e \<Rightarrow> Inl e | Inr req' \<Rightarrow> run_middlewares msg rest req')"
| "run_middlewares msg (NotAFunction # rest) req = Inl (Exn ''ValueError'' (Some msg))"

text \<open>\<open>live_rocket.__call__\<close>\<close>

definition live_rocket_call :: "'j stdlib \<Rightarrow> 'j live_rocket \<Rightarrow> environ \<Rightarrow> exn + wsgi_result" where
  "live_rocket_call lib self env =
     (let resp = Response_init None None True
      in case Request_init lib env of
           Inl e \<Rightarrow> Inl e
         | Inr req0 \<Rightarrow>
             (case run_middlewares ''You can pass function as middlewares !''
                     (app_middlewares self) req0 of
                Inl e \<Rightarrow> Inl e
              | Inr req \<Rightarrow>
                  (case find_route (route_manager self) (path_info req) (http_method req) of
                     Inl e \<Rightarrow> Inl e
                   | Inr (Some h, ps, route_middlewares) \<Rightarrow>
                       (case run_middlewares ''You can pass only function as middlewares !!''
                               route_middlewares req of
                          Inl e \<Rightarrow> Inl e
                        | Inr req' \<Rightarrow>
                            (case h req' resp ps of
                               Inl e \<Rightarrow> Inl e
                             | Inr resp' \<Rightarrow> Inr (as_wsgi resp')))
                   | Inr (None, ps, route_middlewares) \<Rightarrow>
                       Inr (as_wsgi (Response_init (Some ''404 Not Found'')
                                       (Some ''Route not found'') False)))))"

section \<open>The connection worker\<close>

text \<open>
  The clause \<open>except Exception as e\<close> of \<open>handle_wsgi_request\<close>: an exception deriving
  from \<open>Exception\<close> becomes the error response built from \<open>str(e)\<close>, any other one
  goes on to the caller. Where the model does not have the text of \<open>str(e)\<close> the result
  is \<open>Inl Unmodelled\<close>.
\<close>

fun internal_error :: "exn \<Rightarrow> exn + string" where
  "internal_error (Exn c m) =
     (case m of
        None \<Rightarrow> Inl Unmodelled
      | Some msg \<Rightarrow> Inr (create_error_response 500 (''Internal Server Error: '' @ msg)))"
| "internal_error (BaseExn c m) = Inl (BaseExn c m)"
| "internal_error Unmodelled = Inl Unmodelled"

definition encode_chunk :: "chunk \<Rightarrow> string" where
  "encode_chunk c = (case c of StrChunk s \<Rightarrow> encode_utf8 s | BytesChunk b \<Rightarrow> b)"

text \<open>
  \<open>SocketHTTPServer.handle_wsgi_request\<close>. The call of the application, the loop over
  its result and \<open>build_http_response\<close> are inside the \<open>try\<close>; iterating over headers
  that were never set raises \<open>TypeError\<close> there.
\<close>

definition handle_wsgi_request :: "(environ \<Rightarrow> exn + wsgi_result) \<Rightarrow> environ \<Rightarrow> exn + string" where
  "handle_wsgi_request application env =
     (case (case application env of
              Inl e \<Rightarrow> Inl e
            | Inr (started, response_iter) \<Rightarrow>
                (let response_parts = map encode_chunk response_iter
                 in case started of
                      None \<Rightarrow>
                        Inl (Exn ''TypeError''
                               (Some (squote @ ''NoneType'' @ squote @ '' object is not iterable'')))
                    | Some (status, hdrs) \<Rightarrow>
                        Inr (build_http_response status hdrs (concat response_parts)))) of
        Inr response_data \<Rightarrow> Inr response_data
      | Inl e \<Rightarrow> internal_error e)"

text \<open>
  The client socket: the bytes that have arrived, the byte strings passed to \<open>send\<close>,
  and whether \<open>close\<close> was called. Reading and writing do not fail.
\<close>

record client_socket =
  incoming :: string
  sent :: "string list"
  closed :: bool



definition close :: "client_socket \<Rightarrow> client_socket" where
  "close sock = sock\<lparr> closed := True \<rparr>"


section \<open>Example data\<close>

text \<open>
  Stand-ins for the library functions, exact on the requests below, which have a path
  without percent escapes, no query string and no body the application reads.
\<close>

definition example_lib :: "unit stdlib" where
  "example_lib = \<lparr> unquote = (\<lambda>s. s), parse_qsl = (\<lambda>s. []), parse_qs = (\<lambda>s. []),
                    json_loads = (\<lambda>s. None) \<rparr>"

definition boom_handler :: "unit handler_fn" where
  "boom_handler req resp ps = Inl (Exn ''RuntimeError'' (Some ''kaboom''))"

definition idle_handler :: "unit handler_fn" where
  "idle_handler req resp ps = Inr resp"

definition quit_handler :: "unit handler_fn" where
  "quit_handler req resp ps = Inl (BaseExn ''SystemExit'' (Some ''bye''))"

definition example_app :: "unit live_rocket" where
  "example_app =
     \<lparr> route_manager =
         (case register_all RouteManager_init
                 [(''/boom'', ''GET'', boom_handler, None),
                  (''/idle'', ''GET'', idle_handler, None),
                  (''/quit'', ''GET'', quit_handler, None)] of
            Inl e \<Rightarrow> RouteManager_init
          | Inr rm \<Rightarrow> rm),
       app_middlewares = [] \<rparr>"


definition get_environ :: "string \<Rightarrow> environ" where
  "get_environ path =
     \<lparr> REQUEST_METHOD = Some ''GET'', PATH_INFO = Some path, QUERY_STRING = Some [],
       CONTENT_TYPE = Some [], CONTENT_LENGTH = Some [], wsgi_input = Some (TextInput []),
       other = [(''SERVER_NAME'', ''localhost''), (''SERVER_PORT'', ''80''),
                (''REMOTE_ADDR'', ''127.0.0.1''), (''REMOTE_HOST'', ''127.0.0.1''),
                (''wsgi.url_scheme'', ''http''), (''HTTP_HOST'', ''x'')] \<rparr>"

definition get_context :: "string \<Rightarrow> unit request" where
  "get_context path =
     \<lparr> environ_of = get_environ path, http_method = ''GET'', query_params = [], path_info = path,
       body = Mapping [], body_raw = None \<rparr>"


definition json_post :: string where
  "json_post = ''POST /x HTTP/1.1'' @ crlf @ ''Content-Type: application/json'' @ crlf
               @ ''Content-Length: 3'' @ crlf @ crlf @ ''{a}''"

definition json_environ :: environ where
  "json_environ =
     \<lparr> REQUEST_METHOD = Some ''POST'', PATH_INFO = Some ''/x'', QUERY_STRING = Some [],
       CONTENT_TYPE = Some ''application/json'', CONTENT_LENGTH = Some ''3'',
       wsgi_input = Some (TextInput ''{a}''),
       other = [(''SERVER_NAME'', ''localhost''), (''SERVER_PORT'', ''80''),
                (''REMOTE_ADDR'', ''127.0.0.1''), (''REMOTE_HOST'', ''127.0.0.1''),
                (''wsgi.url_scheme'', ''http'')] \<rparr>"

section \<open>Templates by their parts\<close>

text \<open>
  A template seen as a sequence of literal text and placeholders \<open><name>\<close> or
  \<open><type:name>\<close>.
\<close>

datatype seg = Text string | Hole "string option" string

fun render_seg :: "seg \<Rightarrow> string" where
  "render_seg (Text s) = s"
| "render_seg (Hole None n) = ''<'' @ n @ ''>''"
| "render_seg (Hole (Some t) n) = ''<'' @ t @ '':'' @ n @ ''>''"

definition render :: "seg list \<Rightarrow> string" where
  "render segs = concat (map render_seg segs)"

text \<open>
  Literal text is free of \<open><\<close>; a name is not empty and has no \<open>>\<close>, a type is not
  empty and has neither \<open>:\<close> nor \<open>>\<close>, and a name without a type has no \<open>:\<close>.
\<close>

fun wf_seg :: "seg \<Rightarrow> bool" where
  "wf_seg (Text s) = (CHR ''<'' \<notin> set s)"
| "wf_seg (Hole None n) = (n \<noteq> [] \<and> CHR ''>'' \<notin> set n \<and> CHR '':'' \<notin> set n)"
| "wf_seg (Hole (Some t) n) =
     (t \<noteq> [] \<and> CHR '':'' \<notin> set t \<and> CHR ''>'' \<notin> set t \<and> n \<noteq> [] \<and> CHR ''>'' \<notin> set n)"

fun seg_params :: "seg \<Rightarrow> (string \<times> string) list" where
  "seg_params (Text s) = []"
| "seg_params (Hole None n) = [(n, ''string'')]"
| "seg_params (Hole (Some t) n) = [(n, t)]"

definition type_pattern_of :: "string \<Rightarrow> string" where
  "type_pattern_of t = (case map_of type_patterns t of None \<Rightarrow> ''([^/]+)'' | Some p \<Rightarrow> p)"

fun seg_regex :: "seg \<Rightarrow> string" where
  "seg_regex (Text s) = s"
| "seg_regex (Hole None n) = type_pattern_of ''string''"
| "seg_regex (Hole (Some t) n) = type_pattern_of t"

text \<open>The syntax tree of \<open>parameter_regex\<close>.\<close>

definition param_ast :: regex where
  "param_ast =
     Seq (Lit (CHR ''<''))
       (Seq (Rep 0 (Some 1)
               (Seq (Grp 1 (Seq (Rep 1 None (Cls True [CChar (CHR '':''), CChar (CHR ''>'')])) Eps))
                    (Seq (Lit (CHR '':'')) Eps)))
          (Seq (Grp 2 (Seq (Rep 1 None (Cls True [CChar (CHR ''>'')])) Eps))
               (Seq (Lit (CHR ''>'')) Eps)))"

text \<open>The suffixes left by a greedy run over characters satisfying \<open>P\<close>, longest run first.\<close>

fun backoff :: "(char \<Rightarrow> bool) \<Rightarrow> string \<Rightarrow> string list" where
  "backoff P [] = [[]]"
| "backoff P (x # xs) = (if P x then backoff P xs @ [x # xs] else [x # xs])"

definition is_hole_match :: "rmatch \<Rightarrow> seg \<Rightarrow> bool" where
  "is_hole_match m sg =
     (case sg of
        Text s \<Rightarrow> False
      | Hole t n \<Rightarrow> m_text m = render_seg sg \<and> m_ngroups m = 2
                    \<and> map_of (m_caps m) 1 = t \<and> map_of (m_caps m) 2 = Some n)"

fun is_hole :: "seg \<Rightarrow> bool" where
  "is_hole (Text s) = False"
| "is_hole (Hole t n) = True"


definition digit_run :: regex where
  "digit_run = Seq (Rep 1 None (Cls False [CDigit])) Eps"






text \<open>
  Groups of interest: those numbered in \<open>I\<close> hold a run of digits and nothing else.
\<close>

fun grp_ok :: "nat set \<Rightarrow> regex \<Rightarrow> bool" where
  "grp_ok I (Grp i b) = ((i \<in> I \<longrightarrow> b = digit_run) \<and> grp_ok I b)"
| "grp_ok I (Seq a b) = (grp_ok I a \<and> grp_ok I b)"
| "grp_ok I (Alt a b) = (grp_ok I a \<and> grp_ok I b)"
| "grp_ok I (Rep lo hi r) = grp_ok I r"
| "grp_ok I r = True"

text \<open>
  Captured texts: each is a part of the subject string, and those of the groups in \<open>I\<close>
  are non-empty runs of digits.
\<close>

definition caps_ok :: "nat set \<Rightarrow> string \<Rightarrow> caps \<Rightarrow> bool" where
  "caps_ok I subject g =
     (\<forall>(i, txt) \<in> set g. sublist txt subject
        \<and> (i \<in> I \<longrightarrow> txt \<noteq> [] \<and> (\<forall>c \<in> set txt. is_digit c)))"


definition placeholder_names :: "seg list \<Rightarrow> string list" where
  "placeholder_names segs = map fst (concat (map seg_params segs))"

section \<open>Resolving routes\<close>

lemma resolve_after_single_dynamic:
  assumes "CHR ''<'' \<in> set t" "CHR ''>'' \<in> set t"
  shows "resolve_after [(t, m, h, mws)] path m =
     (case template_match t path of
        Inl e \<Rightarrow> Inl e
      | Inr None \<Rightarrow> Inr (None, [], [])
      | Inr (Some ps) \<Rightarrow> Inr (Some h, ps, (case mws of None \<Rightarrow> [] | Some l \<Rightarrow> l)))"
  using assms
  by (simp add: resolve_after_def add_route_def RouteManager_init_def find_route_def
        template_match_def split: sum.splits option.splits)

lemma users_42:
  "template_match ''/users/<int:id>'' ''/users/42'' = Inr (Some [(''id'', PInt 42)])"
  by code_simp

lemma users_abc: "template_match ''/users/<int:id>'' ''/users/abc'' = Inr None"
  by code_simp

text \<open>
  Claim C3. In the table that holds the single route \<open>/users/<int:id>\<close> under \<open>GET\<close>,
  resolving \<open>/users/42\<close> for \<open>GET\<close> finds the route's handler with the parameters
  \<open>{id: 42}\<close>, where 42 is the integer and not the string, and resolving \<open>/users/abc\<close>
  for \<open>GET\<close> finds nothing.
\<close>

theorem users_int_id_resolution:
  "resolve_after [(''/users/<int:id>'', ''GET'', h, mws)] ''/users/42'' ''GET''
     = Inr (Some h, [(''id'', PInt 42)], (case mws of None \<Rightarrow> [] | Some l \<Rightarrow> l))
   \<and> PInt 42 \<noteq> PStr ''42''
   \<and> resolve_after [(''/users/<int:id>'', ''GET'', h, mws)] ''/users/abc'' ''GET''
     = Inr (None, [], [])"
  by (simp add: resolve_after_single_dynamic users_42 users_abc)

lemma find_route_static:
  "static_entry rm path m = Some ri \<Longrightarrow>
   find_route rm path m = Inr (Some (handler ri), [], middlewares ri)"
  by (auto simp: static_entry_def find_route_def split: option.splits)

lemma find_route_no_static:
  "static_entry rm path m = None \<Longrightarrow>
   find_route rm path m = scan_dynamic (dynamic_routes rm) path m"
  by (auto simp: static_entry_def find_route_def split: option.splits)

lemma add_route_static_entry:
  assumes "add_route rm pat meth h mws = Inr rm'"
  shows "static_entry rm' path m =
     (if \<not> is_dynamic pat \<and> path = pat \<and> m = meth
      then Some \<lparr> handler = h, middlewares = (case mws of None \<Rightarrow> [] | Some l \<Rightarrow> l) \<rparr>
      else static_entry rm path m)"
  using assms
  by (auto simp: add_route_def static_entry_def is_dynamic_def Let_def
           split: if_splits sum.splits option.splits)

lemma register_all_append:
  "register_all rm (a @ b) =
     (case register_all rm a of Inl e \<Rightarrow> Inl e | Inr rm1 \<Rightarrow> register_all rm1 b)"
  by (induction a arbitrary: rm) (auto split: sum.splits)

lemma register_all_keeps_entry:
  assumes "register_all rm regs = Inr rm'"
      and "static_entry rm path m = Some ri"
      and "\<forall>r \<in> set regs. (fst r, fst (snd r)) \<noteq> (path, m)"
  shows "static_entry rm' path m = Some ri"
  using assms
proof (induction regs arbitrary: rm)
  case Nil
  then show ?case by simp
next
  case (Cons r regs)
  obtain pat meth h mws where r: "r = (pat, meth, h, mws)" by (cases r) auto
  from Cons.prems(1) r obtain rm1 where
    a: "add_route rm pat meth h mws = Inr rm1" and rest: "register_all rm1 regs = Inr rm'"
    by (auto split: sum.splits)
  have "(pat, meth) \<noteq> (path, m)" using Cons.prems(3) r by auto
  then have "static_entry rm1 path m = Some ri"
    using add_route_static_entry[OF a, of path m] Cons.prems(2) by auto
  from Cons.IH[OF rest this] Cons.prems(3) show ?case by simp
qed

lemma scan_dynamic_first_match:
  assumes "\<forall>r' \<in> set before. dr_method r' = m \<longrightarrow> URLPattern_match (dr_pattern r') path = Inr None"
      and "dr_method r = m"
      and "URLPattern_match (dr_pattern r) path = Inr (Some ps)"
  shows "scan_dynamic (before @ r # later) path m = Inr (Some (dr_handler r), ps, dr_middlewares r)"
  using assms by (induction before) auto

lemma scan_dynamic_first_raise:
  assumes "\<forall>r' \<in> set before. dr_method r' = m \<longrightarrow> URLPattern_match (dr_pattern r') path = Inr None"
      and "dr_method r = m"
      and "URLPattern_match (dr_pattern r) path = Inl e"
  shows "scan_dynamic (before @ r # later) path m = Inl e"
  using assms by (induction before) auto

text \<open>
  Claim C2, as amended. When the exact-match index has no entry for the path and method,
  \<open>find_route\<close> walks the pattern routes in registration order: entries of another
  method are skipped and entries of the method whose matcher finds no match are passed
  over. The first entry of the method whose matcher does anything else decides: when
  the matcher succeeds, \<open>find_route\<close> returns the entry's handler, the extracted
  parameters and the entry's middlewares; when the matcher raises, \<open>find_route\<close> raises
  the same exception. In both cases the routes registered after it are not looked at.
\<close>

theorem first_registered_pattern_wins:
  assumes "static_entry rm path m = None"
      and "dynamic_routes rm = before @ r # later"
      and "\<forall>r' \<in> set before. dr_method r' = m \<longrightarrow> URLPattern_match (dr_pattern r') path = Inr None"
      and "dr_method r = m"
  shows "(\<forall>ps. URLPattern_match (dr_pattern r) path = Inr (Some ps)
            \<longrightarrow> find_route rm path m = Inr (Some (dr_handler r), ps, dr_middlewares r))
       \<and> (\<forall>e. URLPattern_match (dr_pattern r) path = Inl e \<longrightarrow> find_route rm path m = Inl e)"
  using assms by (simp add: find_route_no_static scan_dynamic_first_match scan_dynamic_first_raise)


lemma init_ok_examples:
  "\<not> isl (URLPattern_init ''/<name>'')"
  "\<not> isl (URLPattern_init ''/<path:p>'')"
  "\<not> isl (URLPattern_init ''/u/<x>'')"
  "\<not> isl (URLPattern_init ''/u/<int:b>'')"
  "\<not> isl (URLPattern_init ''/u/<a>'')"
  by code_simp+

lemma not_isl_obtain: "\<not> isl x \<Longrightarrow> \<exists>y. x = Inr y"
  by (cases x) auto

lemma u7_int: "template_match ''/u/<int:b>'' ''/u/7'' = Inr (Some [(''b'', PInt 7)])"
  by code_simp

lemma u7_str: "template_match ''/u/<a>'' ''/u/7'' = Inr (Some [(''a'', PStr ''7'')])"
  by code_simp

text \<open>
  The amended claim C2 at a table where a \<open>POST\<close> route and two \<open>GET\<close> routes all match \<open>/u/7\<close>: the
  first \<open>GET\<close> route wins although the later one matches too.
\<close>

theorem first_registered_pattern_wins_witness:
  "resolve_after
     [(''/u/<x>'', ''POST'', 0::nat, None :: nat list option),
      (''/u/<int:b>'', ''GET'', 1, None),
      (''/u/<a>'', ''GET'', 2, None)] ''/u/7'' ''GET''
   = Inr (Some 1, [(''b'', PInt 7)], [])
   \<and> template_match ''/u/<a>'' ''/u/7'' = Inr (Some [(''a'', PStr ''7'')])"
proof -
  obtain p0 where i0: "URLPattern_init ''/u/<x>'' = Inr p0"
    using not_isl_obtain[OF init_ok_examples(3)] by blast
  obtain p1 where i1: "URLPattern_init ''/u/<int:b>'' = Inr p1"
    using not_isl_obtain[OF init_ok_examples(4)] by blast
  obtain p2 where i2: "URLPattern_init ''/u/<a>'' = Inr p2"
    using not_isl_obtain[OF init_ok_examples(5)] by blast
  have m1: "URLPattern_match p1 ''/u/7'' = Inr (Some [(''b'', PInt 7)])"
    using u7_int by (simp add: template_match_def i1)
  define r0 :: "(nat, nat) dynamic_route" where
    "r0 = \<lparr> dr_pattern = p0, dr_original_pattern = ''/u/<x>'', dr_method = ''POST'',
            dr_handler = 0, dr_middlewares = [] \<rparr>"
  define r1 :: "(nat, nat) dynamic_route" where
    "r1 = \<lparr> dr_pattern = p1, dr_original_pattern = ''/u/<int:b>'', dr_method = ''GET'',
            dr_handler = 1, dr_middlewares = [] \<rparr>"
  define r2 :: "(nat, nat) dynamic_route" where
    "r2 = \<lparr> dr_pattern = p2, dr_original_pattern = ''/u/<a>'', dr_method = ''GET'',
            dr_handler = 2, dr_middlewares = [] \<rparr>"
  define rm :: "(nat, nat) RouteManager" where
    "rm = \<lparr> static_routes = Map.empty, dynamic_routes = [r0] @ r1 # [r2] \<rparr>"
  have reg: "register_all RouteManager_init
     [(''/u/<x>'', ''POST'', 0::nat, None :: nat list option),
      (''/u/<int:b>'', ''GET'', 1, None),
      (''/u/<a>'', ''GET'', 2, None)] = Inr rm"
    by (simp add: add_route_def RouteManager_init_def i0 i1 i2 rm_def r0_def r1_def r2_def)
  have s: "static_entry rm ''/u/7'' ''GET'' = None" by (simp add: rm_def static_entry_def)
  have d: "dynamic_routes rm = [r0] @ r1 # [r2]" by (simp add: rm_def)
  have b: "\<forall>r'\<in>set [r0]. dr_method r' = ''GET'' \<longrightarrow>
            URLPattern_match (dr_pattern r') ''/u/7'' = Inr None"
    by (simp add: r0_def)
  have g: "dr_method r1 = ''GET''" by (simp add: r1_def)
  have "find_route rm ''/u/7'' ''GET'' = Inr (Some (dr_handler r1), [(''b'', PInt 7)], dr_middlewares r1)"
    using first_registered_pattern_wins[OF s d b g] m1 by (simp add: r1_def)
  with reg u7_str show ?thesis by (simp add: resolve_after_def r1_def)
qed

lemma broken_template_raises: "template_match ''/(<x>'' ''/a'' = Inl (Exn ''re.error'' None)"
  by code_simp

lemma later_template_matches: "template_match ''/<y>'' ''/a'' = Inr (Some [(''y'', PStr ''a'')])"
  by code_simp

lemma init_broken: "\<not> isl (URLPattern_init ''/(<x>'')" "\<not> isl (URLPattern_init ''/<y>'')"
  by code_simp+

text \<open>
  Claim C2 as stated fails when the matcher of an earlier route raises. The template
  \<open>/(<x>\<close> is accepted at registration; its pattern text \<open>^/(([^/]+)$\<close> has an unclosed
  parenthesis, and \<open>re.match\<close> raises \<open>re.error\<close> at the first lookup. The route \<open>/<y>\<close>
  registered after it matches the path \<open>/a\<close>, yet \<open>find_route\<close> raises instead of returning
  it.
\<close>

theorem raising_matcher_counterexample:
  "resolve_after
     [(''/(<x>'', ''GET'', 1::nat, None :: nat list option),
      (''/<y>'', ''GET'', 2, None)] ''/a'' ''GET''
   = Inl (Exn ''re.error'' None)
   \<and> template_match ''/<y>'' ''/a'' = Inr (Some [(''y'', PStr ''a'')])"
proof -
  obtain p0 where i0: "URLPattern_init ''/(<x>'' = Inr p0"
    using not_isl_obtain[OF init_broken(1)] by blast
  obtain p1 where i1: "URLPattern_init ''/<y>'' = Inr p1"
    using not_isl_obtain[OF init_broken(2)] by blast
  have m0: "URLPattern_match p0 ''/a'' = Inl (Exn ''re.error'' None)"
    using broken_template_raises by (simp add: template_match_def i0)
  have "resolve_after
     [(''/(<x>'', ''GET'', 1::nat, None :: nat list option),
      (''/<y>'', ''GET'', 2, None)] ''/a'' ''GET'' = Inl (Exn ''re.error'' None)"
    by (simp add: resolve_after_def add_route_def RouteManager_init_def i0 i1 find_route_def m0)
  with later_template_matches show ?thesis by simp
qed

lemma no_placeholder_example: "re_finditer parameter_regex ''/<>/a+b'' = Inr []"
  by code_simp

lemma plus_path_no_match: "template_match ''/<>/a+b'' ''/<>/a+b'' = Inr None"
  by code_simp

text \<open>
  Claim C1 as stated fails for a path without any placeholder that contains both angle
  brackets: \<open>/<>/a+b\<close> holds no placeholder, yet it is stored as a pattern route, and as
  a regular expression it does not match itself.
\<close>

theorem placeholder_free_path_counterexample:
  "re_finditer parameter_regex ''/<>/a+b'' = Inr []
   \<and> resolve_after [(''/<>/a+b'', ''GET'', 1::nat, None :: nat list option)] ''/<>/a+b'' ''GET''
       = Inr (None, [], [])"
  by (simp add: resolve_after_single_dynamic no_placeholder_example plus_path_no_match)

lemma a_dot_b: "template_match ''/a.b'' ''/axb'' = Inr (Some [])"
  by code_simp

lemma a_newline: "template_match ''/a'' (''/a'' @ [newline]) = Inr (Some [])"
  by code_simp

text \<open>
  Claim C5 fails on the code: a template without placeholders is still compiled and
  matched as a regular expression, never compared as a string. The template \<open>/a.b\<close>
  matches the different url \<open>/axb\<close>, and the template \<open>/a\<close> matches \<open>/a\<close> followed by a
  line feed.
\<close>

theorem placeholder_free_template_is_not_exact_compare:
  "template_match ''/a.b'' ''/axb'' = Inr (Some []) \<and> ''/axb'' \<noteq> ''/a.b''
   \<and> template_match ''/a'' (''/a'' @ [newline]) = Inr (Some []) \<and> ''/a'' @ [newline] \<noteq> ''/a''"
  using a_dot_b a_newline by simp

section \<open>Framing of responses\<close>

lemma encode_utf8_append: "encode_utf8 (a @ b) = encode_utf8 a @ encode_utf8 b"
  by (simp add: encode_utf8_def)

lemma encode_utf8_Cons: "encode_utf8 (c # s) = encode_char c @ encode_utf8 s"
  by (simp add: encode_utf8_def)

lemma encode_utf8_Nil: "encode_utf8 [] = []"
  by (simp add: encode_utf8_def)

lemma encode_utf8_ascii:
  "\<forall>c \<in> set s. (of_char c :: nat) < 128 \<Longrightarrow> encode_utf8 s = s"
  by (induction s) (auto simp: encode_utf8_def encode_char_def)

lemma encode_crlf: "encode_utf8 crlf = crlf"
  by (simp add: encode_utf8_def encode_char_def crlf_def cret_def newline_def)

lemma str_nat_digits: "\<forall>c \<in> set (str_nat n). is_digit c"
proof (induction n rule: str_nat.induct)
  case (1 n)
  have d: "\<And>k::nat. k < 10 \<Longrightarrow> is_digit (char_of (48 + k))"
    by (simp add: is_digit_def)
  show ?case
  proof (cases "n < 10")
    case True
    then show ?thesis by (subst str_nat.simps) (simp add: d)
  next
    case False
    with 1 have "\<forall>c \<in> set (str_nat (n div 10)). is_digit c" by simp
    moreover have "is_digit (char_of (48 + n mod 10))" by (rule d) simp
    ultimately show ?thesis using False by (subst str_nat.simps) auto
  qed
qed

lemma encode_str_nat: "encode_utf8 (str_nat n) = str_nat n"
  by (rule encode_utf8_ascii) (use str_nat_digits[of n] in \<open>auto simp: is_digit_def\<close>)

lemma join_sep_end:
  "xs \<noteq> [] \<Longrightarrow> join sep xs @ sep = concat (map (\<lambda>l. l @ sep) xs)"
  by (induction sep xs rule: join.induct) auto

text \<open>
  Claim C4. The serialized response is the line \<open>HTTP/1.1 <status>\<close>, then one line
  \<open>Name: Value\<close> for each header pair supplied, in the order supplied, then a line
  \<open>Content-Length: <number of bytes of the body>\<close> exactly when no supplied header is
  named \<open>Content-Length\<close> apart from the case of letters, then the line
  \<open>Connection: close\<close>, then an empty line, then the bytes of the body unchanged. Each
  line ends with CR LF and text is encoded in UTF-8.
\<close>

theorem build_http_response_frame:
  "build_http_response status hdrs content =
     encode_utf8 (''HTTP/1.1 '' @ status) @ crlf
     @ concat (map (\<lambda>(name, val). encode_utf8 (name @ '': '' @ val) @ crlf) hdrs)
     @ (if (\<exists>(name, val) \<in> set hdrs. lower name = lower ''Content-Length'') then []
        else ''Content-Length: '' @ str_nat (length content) @ crlf)
     @ ''Connection: close'' @ crlf
     @ crlf
     @ content"
proof -
  have l: "lower ''Content-Length'' = ''content-length''"
    by code_simp
  have ex: "list_ex (\<lambda>h. lower (fst h) = ''content-length'') hdrs
            = (\<exists>(name, val) \<in> set hdrs. lower name = ''content-length'')"
    by (force simp: list_ex_iff)
  define first_lines where
    "first_lines = (''HTTP/1.1 '' @ status)
        # map (\<lambda>(header_name, header_value). header_name @ '': '' @ header_value) hdrs"
  define cl_line where "cl_line = ''Content-Length: '' @ str_nat (length content)"
  have hd_enc: "concat (map (\<lambda>l. encode_utf8 l @ crlf) first_lines)
        = encode_utf8 (''HTTP/1.1 '' @ status) @ crlf
          @ concat (map (\<lambda>(name, val). encode_utf8 (name @ '': '' @ val) @ crlf) hdrs)"
    unfolding first_lines_def by (induction hdrs) auto
  have enc_lines: "encode_utf8 (join crlf ls @ crlf @ crlf)
        = concat (map (\<lambda>l. encode_utf8 l @ crlf) ls) @ crlf" if "ls \<noteq> []" for ls
  proof -
    have "join crlf ls @ crlf = concat (map (\<lambda>l. l @ crlf) ls)"
      using that by (rule join_sep_end)
    moreover have "encode_utf8 (concat (map (\<lambda>l. l @ crlf) ls))
        = concat (map (\<lambda>l. encode_utf8 l @ crlf) ls)"
      by (induction ls) (auto simp: encode_utf8_append encode_crlf encode_utf8_Nil)
    ultimately have "encode_utf8 (join crlf ls @ crlf) = concat (map (\<lambda>l. encode_utf8 l @ crlf) ls)"
      by simp
    then show ?thesis
      using encode_utf8_append[of "join crlf ls @ crlf" crlf] by (simp add: encode_crlf)
  qed
  have e1: "encode_utf8 ''Content-Length: '' = ''Content-Length: ''"
    by code_simp
  have cl: "encode_utf8 cl_line = cl_line"
    unfolding cl_line_def using e1 by (simp only: encode_utf8_append encode_str_nat)
  have cc: "encode_utf8 ''Connection: close'' = ''Connection: close''"
    by code_simp
  show ?thesis
  proof (cases "\<exists>(name, val) \<in> set hdrs. lower name = ''content-length''")
    case True
    then have "build_http_response status hdrs content
        = encode_utf8 (join crlf (first_lines @ [''Connection: close'']) @ crlf @ crlf) @ content"
      unfolding build_http_response_def Let_def ex first_lines_def by simp
    also have "\<dots> = concat (map (\<lambda>l. encode_utf8 l @ crlf) (first_lines @ [''Connection: close'']))
        @ crlf @ content"
      by (subst enc_lines) simp_all
    also have "\<dots> = concat (map (\<lambda>l. encode_utf8 l @ crlf) first_lines)
        @ ''Connection: close'' @ crlf @ crlf @ content"
      using cc by simp
    finally show ?thesis
      unfolding hd_enc l using True by simp
  next
    case False
    then have "build_http_response status hdrs content
        = encode_utf8 (join crlf (first_lines @ [cl_line] @ [''Connection: close'']) @ crlf @ crlf)
          @ content"
      unfolding build_http_response_def Let_def ex first_lines_def cl_line_def by simp
    also have "\<dots> = concat (map (\<lambda>l. encode_utf8 l @ crlf)
                        (first_lines @ [cl_line] @ [''Connection: close'']))
        @ crlf @ content"
      by (subst enc_lines) simp_all
    also have "\<dots> = concat (map (\<lambda>l. encode_utf8 l @ crlf) first_lines)
        @ cl_line @ crlf @ ''Connection: close'' @ crlf @ crlf @ content"
      using cc cl by simp
    finally show ?thesis
      unfolding hd_enc l cl_line_def using False by simp
  qed
qed


lemma hi_frame:
  "encode_utf8 (''HTTP/1.1 '' @ ''200 OK'') @ crlf
     @ concat (map (\<lambda>(name, val). encode_utf8 (name @ '': '' @ val) @ crlf)
                 [(''Content-Type'', ''text/plain'')])
     @ (if (\<exists>(name, val) \<in> set [(''Content-Type'', ''text/plain'')].
              lower name = lower ''Content-Length'') then []
        else ''Content-Length: '' @ str_nat (length ''hi'') @ crlf)
     @ ''Connection: close'' @ crlf
     @ crlf
     @ ''hi''
   = ''HTTP/1.1 200 OK'' @ crlf @ ''Content-Type: text/plain'' @ crlf
     @ ''Content-Length: 2'' @ crlf @ ''Connection: close'' @ crlf @ crlf @ ''hi''"
  by code_simp

text \<open>
  Claim C4 at the headers \<open>[("Content-Type", "text/plain")]\<close> and the body \<open>hi\<close>: one
  \<open>Content-Length: 2\<close>, one \<open>Connection: close\<close>, and the body.
\<close>

theorem build_http_response_frame_witness:
  "build_http_response ''200 OK'' [(''Content-Type'', ''text/plain'')] ''hi''
   = ''HTTP/1.1 200 OK'' @ crlf @ ''Content-Type: text/plain'' @ crlf
     @ ''Content-Length: 2'' @ crlf @ ''Connection: close'' @ crlf @ crlf @ ''hi''"
  using build_http_response_frame[of "''200 OK''" "[(''Content-Type'', ''text/plain'')]" "''hi''"]
  by (simp only: hi_frame)

section \<open>Errors and defaults\<close>






text \<open>
  Claim C9. A response built with neither status nor text has the status
  \<open>404 Not Found\<close>, the text \<open>Route not Found\<close> and the single header
  \<open>("Content-Type", "text/plain")\<close>; it is the response the application passes to a
  matched handler. When a matched handler returns it as it is, the application answers
  with that status, that header and that text, and the server writes them out.
\<close>

theorem untouched_response_is_404:
  assumes "Request_init lib env = Inr req0"
      and "run_middlewares ''You can pass function as middlewares !'' (app_middlewares self) req0
             = Inr req"
      and "find_route (route_manager self) (path_info req) (http_method req) = Inr (Some h, ps, mws)"
      and "run_middlewares ''You can pass only function as middlewares !!'' mws req = Inr req'"
      and "h req' (Response_init None None True) ps = Inr (Response_init None None True)"
  shows "Response_init None None a =
           \<lparr> status_code = ''404 Not Found'', resp_text = ''Route not Found'', app = a,
             headers = [(''Content-Type'', ''text/plain'')] \<rparr>
         \<and> live_rocket_call lib self env =
           Inr (Some (''404 Not Found'', [(''Content-Type'', ''text/plain'')]),
                [BytesChunk ''Route not Found''])
         \<and> handle_wsgi_request (live_rocket_call lib self) env =
           Inr (''HTTP/1.1 404 Not Found'' @ crlf @ ''Content-Type: text/plain'' @ crlf
                @ ''Content-Length: 15'' @ crlf @ ''Connection: close'' @ crlf @ crlf
                @ ''Route not Found'')"
proof -
  have e: "encode_utf8 ''Route not Found'' = ''Route not Found''"
    by code_simp
  have call: "live_rocket_call lib self env =
           Inr (Some (''404 Not Found'', [(''Content-Type'', ''text/plain'')]),
                [BytesChunk ''Route not Found''])"
    using assms e by (simp add: live_rocket_call_def as_wsgi_def Response_init_def)
  have b: "build_http_response ''404 Not Found'' [(''Content-Type'', ''text/plain'')] ''Route not Found''
      = ''HTTP/1.1 404 Not Found'' @ crlf @ ''Content-Type: text/plain'' @ crlf
                @ ''Content-Length: 15'' @ crlf @ ''Connection: close'' @ crlf @ crlf
                @ ''Route not Found''"
    by code_simp
  have "handle_wsgi_request (live_rocket_call lib self) env =
      Inr (build_http_response ''404 Not Found'' [(''Content-Type'', ''text/plain'')] ''Route not Found'')"
    by (simp add: handle_wsgi_request_def call encode_chunk_def)
  with b call show ?thesis by (simp add: Response_init_def)
qed




lemma ex_request: "Request_init example_lib (get_environ path) = Inr (get_context path)"
  by (simp add: Request_init_def get_environ_def get_context_def)

lemma ex_routes:
  "find_route (route_manager example_app) ''/boom'' ''GET'' = Inr (Some boom_handler, [], [])"
  "find_route (route_manager example_app) ''/idle'' ''GET'' = Inr (Some idle_handler, [], [])"
  "find_route (route_manager example_app) ''/quit'' ''GET'' = Inr (Some quit_handler, [], [])"
  by (simp_all add: example_app_def add_route_def RouteManager_init_def find_route_def)






text \<open>
  Claim C9 on the example application: the handler of \<open>/idle\<close> returns without touching
  the response.
\<close>

theorem untouched_response_is_404_witness:
  "Response_init None None True =
     \<lparr> status_code = ''404 Not Found'', resp_text = ''Route not Found'', app = True,
       headers = [(''Content-Type'', ''text/plain'')] \<rparr>
   \<and> live_rocket_call example_lib example_app (get_environ ''/idle'') =
       Inr (Some (''404 Not Found'', [(''Content-Type'', ''text/plain'')]),
            [BytesChunk ''Route not Found''])
   \<and> handle_wsgi_request (live_rocket_call example_lib example_app) (get_environ ''/idle'') =
       Inr (''HTTP/1.1 404 Not Found'' @ crlf @ ''Content-Type: text/plain'' @ crlf
            @ ''Content-Length: 15'' @ crlf @ ''Connection: close'' @ crlf @ crlf
            @ ''Route not Found'')"
proof -
  have mw: "run_middlewares ''You can pass function as middlewares !''
              (app_middlewares example_app) (get_context ''/idle'') = Inr (get_context ''/idle'')"
    by (simp add: example_app_def)
  have rt: "find_route (route_manager example_app) (path_info (get_context ''/idle''))
              (http_method (get_context ''/idle'')) = Inr (Some idle_handler, [], [])"
    using ex_routes(2) by (simp add: get_context_def)
  have rmw: "run_middlewares ''You can pass only function as middlewares !!'' []
               (get_context ''/idle'') = Inr (get_context ''/idle'')"
    by simp
  have h: "idle_handler (get_context ''/idle'') (Response_init None None True) []
             = Inr (Response_init None None True)"
    by (simp add: idle_handler_def)
  show ?thesis
    by (rule untouched_response_is_404[OF ex_request mw rt rmw h])
qed


lemma json_facts:
  "py_int ''3'' = Some 3"
  "contains ''application/x-www-form-urlencoded'' ''application/json'' = False"
  "contains ''application/json'' ''application/json'' = True"
  "decode_utf8 [CHR 0xFF, CHR 0xFE, CHR 0xFD] = Inl unicode_decode_error"
  by code_simp+

lemma json_parse:
  "parse_http_request example_lib ''localhost'' 80 json_post ''127.0.0.1'' = Inr json_environ"
  by code_simp

text \<open>
  Claim C7 fails on the code. The request below has the content type
  \<open>application/json\<close>, the content length 3 and the body \<open>{a}\<close>, which is not JSON.
  \<open>SocketHTTPServer\<close> hands the body over as text, and building the request context
  raises \<open>AttributeError\<close> before \<open>json.loads\<close> is reached, whatever \<open>json.loads\<close> would do.
  With a byte stream whose three bytes are not UTF-8 it raises \<open>UnicodeDecodeError\<close>. In
  neither case is the body the empty mapping.
\<close>

theorem malformed_json_body_raises:
  "parse_http_request example_lib ''localhost'' 80 json_post ''127.0.0.1'' = Inr json_environ
   \<and> Request_init lib json_environ =
       Inl (Exn ''AttributeError''
              (Some (squote @ ''str'' @ squote @ '' object has no attribute ''
                     @ squote @ ''decode'' @ squote)))
   \<and> Request_init lib (json_environ\<lparr> wsgi_input := Some (BytesInput [CHR 0xFF, CHR 0xFE, CHR 0xFD]) \<rparr>)
       = Inl unicode_decode_error"
  using json_parse
  by (simp add: Request_init_def json_environ_def json_facts decode_body_def read_input_def)

section \<open>Greedy runs\<close>

lemma backoff_last: "\<exists>bs. backoff P s = bs @ [s]"
  by (cases s) auto

lemma butlast_backoff_Cons:
  "butlast (backoff P (x # xs)) = (if P x then backoff P xs else [])"
  using backoff_last[of P xs] by auto

lemma ms_star_cls:
  "ms inp (Rep 0 None (Cls neg its)) (s, g) = map (\<lambda>r. (r, g)) (backoff (cls_match neg its) s)"
proof (induction s)
  case Nil
  show ?case by (subst ms_Rep) simp
next
  case (Cons x xs)
  show ?case
  proof (cases "cls_match neg its x")
    case True
    then show ?thesis using Cons by (subst ms_Rep) simp
  next
    case False
    then show ?thesis by (subst ms_Rep) simp
  qed
qed

lemma ms_plus_cls:
  "ms inp (Rep 1 None (Cls neg its)) (s, g)
     = map (\<lambda>r. (r, g)) (butlast (backoff (cls_match neg its) s))"
proof (cases s)
  case Nil
  show ?thesis unfolding Nil by (subst ms_Rep) simp
next
  case (Cons x xs)
  show ?thesis unfolding Cons butlast_backoff_Cons
    by (subst ms_Rep) (simp add: ms_star_cls)
qed

text \<open>
  Every suffix left by a run is reached by consuming characters satisfying \<open>P\<close>.
\<close>

lemma backoff_decomp:
  "r \<in> set (backoff P s) \<Longrightarrow> \<exists>a. s = a @ r \<and> (\<forall>c \<in> set a. P c)"
proof (induction s)
  case Nil
  then show ?case by simp
next
  case (Cons x xs)
  show ?case
  proof (cases "r = x # xs")
    case True
    then show ?thesis by simp
  next
    case False
    with Cons.prems have px: "P x" and "r \<in> set (backoff P xs)"
      by (auto split: if_splits)
    from Cons.IH[OF this(2)] obtain a where "xs = a @ r" "\<forall>c \<in> set a. P c" by blast
    with px have "x # xs = (x # a) @ r \<and> (\<forall>c \<in> set (x # a). P c)" by simp
    then show ?thesis by blast
  qed
qed

lemma butlast_backoff_decomp:
  assumes "r \<in> set (butlast (backoff P s))"
  shows "\<exists>a. s = a @ r \<and> a \<noteq> [] \<and> (\<forall>c \<in> set a. P c)"
proof (cases s)
  case Nil
  with assms show ?thesis by simp
next
  case (Cons x xs)
  with assms have px: "P x" and "r \<in> set (backoff P xs)"
    by (auto simp: butlast_backoff_Cons split: if_splits)
  from backoff_decomp[OF this(2)] obtain a where "xs = a @ r" "\<forall>c \<in> set a. P c" by blast
  with px Cons have "s = (x # a) @ r \<and> x # a \<noteq> [] \<and> (\<forall>c \<in> set (x # a). P c)" by simp
  then show ?thesis by blast
qed

text \<open>
  A run followed by a character outside the class: the run is maximal, so only the
  longest candidate survives.
\<close>

lemma backoff_then_char:
  assumes "\<not> P c" "\<forall>x \<in> set a. P x" "\<not> P d"
  shows "concat (map (\<lambda>r. case r of [] \<Rightarrow> [] | x # xs \<Rightarrow> if x = c then F r xs else [])
                     (backoff P (a @ d # rest)))
         = (if d = c then F (d # rest) rest else [])"
  using assms by (induction a) auto

lemma butlast_backoff_then_char:
  assumes "\<not> P c" "\<forall>x \<in> set a. P x" "\<not> P d" "a \<noteq> []"
  shows "concat (map (\<lambda>r. case r of [] \<Rightarrow> [] | x # xs \<Rightarrow> if x = c then F r xs else [])
                     (butlast (backoff P (a @ d # rest))))
         = (if d = c then F (d # rest) rest else [])"
proof -
  obtain x a' where a: "a = x # a'" using assms(4) by (cases a) auto
  have px: "P x" using assms(2) a by simp
  then have xc: "x \<noteq> c" using assms(1) by auto
  obtain bs where bs: "backoff P (a @ d # rest) = bs @ [a @ d # rest]"
    using backoff_last by blast
  have "concat (map (\<lambda>r. case r of [] \<Rightarrow> [] | x # xs \<Rightarrow> if x = c then F r xs else [])
                     (backoff P (a @ d # rest)))
      = concat (map (\<lambda>r. case r of [] \<Rightarrow> [] | x # xs \<Rightarrow> if x = c then F r xs else []) bs)"
    unfolding bs using a xc by simp
  moreover have "butlast (backoff P (a @ d # rest)) = bs" unfolding bs by simp
  ultimately show ?thesis using backoff_then_char[OF assms(1-3), of F rest] by simp
qed

lemma ms_seq_eps: "ms inp (Seq r Eps) st = ms inp r st"
proof -
  have "concat (map (ms inp Eps) xs) = xs" for xs
    by (induction xs) auto
  then show ?thesis by simp
qed

lemma ms_lit_then:
  "ms inp (Seq (Lit c) k) (r, g)
     = (case r of [] \<Rightarrow> [] | x # xs \<Rightarrow> if x = c then ms inp k (xs, g) else [])"
  by (cases r) auto

text \<open>
  A group holding a run over a character class, followed by a character outside the
  class: the group takes the whole run.
\<close>

lemma grp_run_then_lit:
  assumes "\<not> cls_match neg its c" "\<forall>x \<in> set a. cls_match neg its x"
      and "\<not> cls_match neg its d" "a \<noteq> []"
  shows "ms inp (Seq (Grp i (Seq (Rep 1 None (Cls neg its)) Eps)) (Seq (Lit c) k))
            (a @ d # rest, g)
         = (if d = c then ms inp k (rest, (i, a) # g) else [])"
proof -
  let ?s = "a @ d # rest"
  let ?P = "cls_match neg its"
  have grp: "ms inp (Grp i (Seq (Rep 1 None (Cls neg its)) Eps)) (?s, g)
      = map (\<lambda>r. (r, (i, take (length ?s - length r) ?s) # g)) (butlast (backoff ?P ?s))"
    by (simp only: ms.simps(9) ms_seq_eps ms_plus_cls map_map comp_def fst_conv snd_conv)
  have "ms inp (Seq (Grp i (Seq (Rep 1 None (Cls neg its)) Eps)) (Seq (Lit c) k)) (?s, g)
      = concat (map (ms inp (Seq (Lit c) k))
                  (ms inp (Grp i (Seq (Rep 1 None (Cls neg its)) Eps)) (?s, g)))"
    by (rule ms.simps(7))
  also have "\<dots> = concat (map (\<lambda>r. case r of [] \<Rightarrow> [] | x # xs \<Rightarrow>
                   if x = c then ms inp k (xs, (i, take (length ?s - length r) ?s) # g) else [])
                 (butlast (backoff ?P ?s)))"
    by (simp only: grp map_map comp_def ms_lit_then)
  also have "\<dots> = (if d = c
        then ms inp k (rest, (i, take (length ?s - length (d # rest)) ?s) # g) else [])"
    by (rule butlast_backoff_then_char[OF assms,
          of "\<lambda>r xs. ms inp k (xs, (i, take (length ?s - length r) ?s) # g)" rest])
  finally show ?thesis by simp
qed

lemma ms_opt:
  "ms inp (Rep 0 (Some 1) r) st
     = filter (\<lambda>st'. length (fst st') < length (fst st)) (ms inp r st) @ [st]"
proof -
  have z: "\<And>st'. ms inp (Rep 0 (Some 0) r) st' = [st']"
    by (subst ms_Rep) simp
  have "concat (map (\<lambda>st'. if length (fst st') < length (fst st) then [st'] else []) xs)
      = filter (\<lambda>st'. length (fst st') < length (fst st)) xs" for xs
    by (induction xs) auto
  then show ?thesis by (subst ms_Rep) (simp add: z cong: if_cong)
qed

section \<open>Finding the placeholders of a template\<close>

lemma compile_parameter_regex: "re_compile parameter_regex = Inr (param_ast, 2)"
  by code_simp

lemma param_no_match:
  "x \<noteq> CHR ''<'' \<Longrightarrow> ms inp param_ast (x # rest, g) = []"
  by (simp add: param_ast_def)

lemma cls_colon_gt:
  "cls_match True [CChar (CHR '':''), CChar (CHR ''>'')] x = (x \<noteq> CHR '':'' \<and> x \<noteq> CHR ''>'')"
  "cls_match True [CChar (CHR ''>'')] x = (x \<noteq> CHR ''>'')"
  by (auto simp: cls_match_def)

lemma param_ast_unfold:
  "ms inp param_ast (CHR ''<'' # s, g)
     = concat (map (ms inp
                 (Seq (Grp 2 (Seq (Rep 1 None (Cls True [CChar (CHR ''>'')])) Eps))
                      (Seq (Lit (CHR ''>'')) Eps)))
        (filter (\<lambda>st'. length (fst st') < length s)
           (ms inp (Seq (Grp 1 (Seq (Rep 1 None (Cls True [CChar (CHR '':''), CChar (CHR ''>'')])) Eps))
                        (Seq (Lit (CHR '':'')) Eps)) (s, g))
         @ [(s, g)]))"
proof -
  define B where "B = Seq (Grp 1 (Seq (Rep 1 None (Cls True [CChar (CHR '':''), CChar (CHR ''>'')])) Eps))
                        (Seq (Lit (CHR '':'')) Eps)"
  define K2 where "K2 = Seq (Grp 2 (Seq (Rep 1 None (Cls True [CChar (CHR ''>'')])) Eps))
                      (Seq (Lit (CHR ''>'')) Eps)"
  have p: "param_ast = Seq (Lit (CHR ''<'')) (Seq (Rep 0 (Some 1) B) K2)"
    unfolding param_ast_def B_def K2_def ..
  have "ms inp param_ast (CHR ''<'' # s, g) = ms inp (Seq (Rep 0 (Some 1) B) K2) (s, g)"
    unfolding p ms_lit_then by simp
  also have "\<dots> = concat (map (ms inp K2) (ms inp (Rep 0 (Some 1) B) (s, g)))"
    by (rule ms.simps(7))
  also have "\<dots> = concat (map (ms inp K2)
        (filter (\<lambda>st'. length (fst st') < length s) (ms inp B (s, g)) @ [(s, g)]))"
    by (simp only: ms_opt fst_conv)
  finally show ?thesis unfolding B_def K2_def .
qed

lemma param_match_typed:
  assumes "t \<noteq> []" "CHR '':'' \<notin> set t" "CHR ''>'' \<notin> set t" "n \<noteq> []" "CHR ''>'' \<notin> set n"
  shows "\<exists>more. ms inp param_ast (CHR ''<'' # t @ CHR '':'' # n @ CHR ''>'' # rest, g)
           = (rest, (2, n) # (1, t) # g) # more"
proof -
  have b: "ms inp (Seq (Grp 1 (Seq (Rep 1 None (Cls True [CChar (CHR '':''), CChar (CHR ''>'')])) Eps))
                    (Seq (Lit (CHR '':'')) Eps))
             (t @ CHR '':'' # n @ CHR ''>'' # rest, g)
        = [(n @ CHR ''>'' # rest, (1, t) # g)]"
    using assms by (subst grp_run_then_lit) (auto simp: cls_colon_gt)
  have k: "ms inp (Seq (Grp 2 (Seq (Rep 1 None (Cls True [CChar (CHR ''>'')])) Eps))
                    (Seq (Lit (CHR ''>'')) Eps))
             (n @ CHR ''>'' # rest, (1, t) # g)
        = [(rest, (2, n) # (1, t) # g)]"
    using assms by (subst grp_run_then_lit) (auto simp: cls_colon_gt)
  have f: "filter (\<lambda>st'. length (fst st') < length (t @ CHR '':'' # n @ CHR ''>'' # rest))
             [(n @ CHR ''>'' # rest, (1, t) # g)] = [(n @ CHR ''>'' # rest, (1, t) # g)]"
    by simp
  show ?thesis
    unfolding param_ast_unfold b f by (simp only: k append_Cons append_Nil list.map concat.simps) blast
qed

lemma param_match_untyped:
  assumes "n \<noteq> []" "CHR ''>'' \<notin> set n" "CHR '':'' \<notin> set n"
  shows "ms inp param_ast (CHR ''<'' # n @ CHR ''>'' # rest, g) = [(rest, (2, n) # g)]"
proof -
  have b: "ms inp (Seq (Grp 1 (Seq (Rep 1 None (Cls True [CChar (CHR '':''), CChar (CHR ''>'')])) Eps))
                    (Seq (Lit (CHR '':'')) Eps))
             (n @ CHR ''>'' # rest, g)
        = []"
    using assms by (subst grp_run_then_lit) (auto simp: cls_colon_gt)
  have k: "ms inp (Seq (Grp 2 (Seq (Rep 1 None (Cls True [CChar (CHR ''>'')])) Eps))
                    (Seq (Lit (CHR ''>'')) Eps))
             (n @ CHR ''>'' # rest, g)
        = [(rest, (2, n) # g)]"
    using assms by (subst grp_run_then_lit) (auto simp: cls_colon_gt)
  show ?thesis
    unfolding param_ast_unfold b
    by (simp only: k filter.simps append_Nil list.map concat.simps append_Nil2)
qed

lemma find_all_skip:
  "CHR ''<'' \<notin> set s \<Longrightarrow> find_all param_ast 2 inp (s @ R) = find_all param_ast 2 inp R"
proof (induction s)
  case Nil
  then show ?case by simp
next
  case (Cons x s)
  then have "x \<noteq> CHR ''<''" by auto
  then have "find_all param_ast 2 inp ((x # s) @ R) = find_all param_ast 2 inp (s @ R)"
    by (subst find_all.simps) (simp add: param_no_match)
  with Cons show ?case by simp
qed

lemma find_all_end: "find_all param_ast 2 inp [] = Inr []"
  by (subst find_all.simps) (simp add: param_ast_def)

lemma hole_head:
  assumes "wf_seg (Hole t n)"
  shows "\<exists>more. ms inp param_ast (render_seg (Hole t n) @ R, [])
           = (R, (2, n) # (case t of None \<Rightarrow> [] | Some ty \<Rightarrow> [(1, ty)])) # more"
proof (cases t)
  case None
  with assms show ?thesis
    using param_match_untyped[of n inp R "[]"] by simp
next
  case (Some ty)
  with assms show ?thesis
    using param_match_typed[of ty n inp R "[]"] by simp
qed

lemma find_all_hole:
  assumes "wf_seg (Hole t n)"
  shows "\<exists>m. is_hole_match m (Hole t n) \<and>
           find_all param_ast 2 inp (render_seg (Hole t n) @ R)
             = (case find_all param_ast 2 inp R of Inl e \<Rightarrow> Inl e | Inr rs \<Rightarrow> Inr (m # rs))"
proof -
  let ?h = "render_seg (Hole t n)"
  let ?caps = "(2, n) # (case t of None \<Rightarrow> [] | Some ty \<Rightarrow> [(1, ty)])"
  obtain more where hd: "ms inp param_ast (?h @ R, []) = (R, ?caps) # more"
    using hole_head[OF assms] by blast
  have len: "length R < length (?h @ R)" by (cases t) auto
  have fa: "find_all param_ast 2 inp (?h @ R)
      = (case find_all param_ast 2 inp R of Inl e \<Rightarrow> Inl e
         | Inr rs \<Rightarrow> Inr (mk_match 2 inp (?h @ R) (R, ?caps) # rs))"
    by (subst find_all.simps) (simp only: hd list.case fst_conv len if_True)
  have mt: "m_text (mk_match 2 inp (?h @ R) (R, ?caps)) = ?h"
    by (simp add: mk_match_def)
  have "m_ngroups (mk_match 2 inp (?h @ R) (R, ?caps)) = 2"
    and "map_of (m_caps (mk_match 2 inp (?h @ R) (R, ?caps))) 1 = t"
    and "map_of (m_caps (mk_match 2 inp (?h @ R) (R, ?caps))) 2 = Some n"
    by (cases t; simp add: mk_match_def)+
  with mt have "is_hole_match (mk_match 2 inp (?h @ R) (R, ?caps)) (Hole t n)"
    by (simp add: is_hole_match_def)
  with fa show ?thesis by blast
qed

lemma find_all_render:
  assumes "\<forall>sg \<in> set segs. wf_seg sg"
  shows "\<exists>found. find_all param_ast 2 inp (render segs) = Inr found
           \<and> list_all2 is_hole_match found (filter is_hole segs)"
  using assms
proof (induction segs)
  case Nil
  then show ?case by (simp add: render_def find_all_end)
next
  case (Cons sg segs)
  then obtain found where f: "find_all param_ast 2 inp (render segs) = Inr found"
      and l: "list_all2 is_hole_match found (filter is_hole segs)"
    by auto
  show ?case
  proof (cases sg)
    case (Text s)
    with Cons.prems have "CHR ''<'' \<notin> set s" by simp
    then have "find_all param_ast 2 inp (render (sg # segs)) = Inr found"
      using f Text by (simp add: render_def find_all_skip)
    with l Text show ?thesis by simp
  next
    case (Hole t n)
    with Cons.prems have "wf_seg (Hole t n)" by simp
    from find_all_hole[OF this, of inp "render segs"] f
    obtain m where "is_hole_match m (Hole t n)"
      and "find_all param_ast 2 inp (render_seg (Hole t n) @ render segs) = Inr (m # found)"
      by auto
    with l Hole show ?thesis by (simp add: render_def)
  qed
qed

section \<open>Compiling a template\<close>

lemma replace_first_at:
  assumes "old \<noteq> []" "hd old \<notin> set pre"
  shows "replace_first old new (pre @ old @ r) = pre @ new @ r"
  using assms
proof (induction pre)
  case Nil
  then obtain c cs where "old = c # cs" by (cases old) auto
  then show ?case by simp
next
  case (Cons p pre)
  then obtain c cs where c: "old = c # cs" by (cases old) auto
  with Cons.prems have "c \<noteq> p" by auto
  with c Cons show ?case by simp
qed

lemma type_pattern_no_lt: "CHR ''<'' \<notin> set (type_pattern_of t)"
proof (cases "map_of type_patterns t")
  case None
  then show ?thesis by (simp add: type_pattern_of_def)
next
  case (Some p)
  then have "(t, p) \<in> set type_patterns" by (rule map_of_SomeD)
  then have "CHR ''<'' \<notin> set p"
    by (auto simp: type_patterns_def bslash_def)
  with Some show ?thesis by (simp add: type_pattern_of_def)
qed

lemma compile_loop_render:
  assumes "list_all2 is_hole_match found (filter is_hole segs)"
      and "\<forall>sg \<in> set segs. wf_seg sg"
      and "CHR ''<'' \<notin> set pre"
  shows "compile_loop found (pre @ render segs) names
           = Inr (pre @ concat (map seg_regex segs), names @ concat (map seg_params segs))"
  using assms
proof (induction segs arbitrary: found pre names)
  case Nil
  then show ?case by (simp add: render_def)
next
  case (Cons sg segs)
  show ?case
  proof (cases sg)
    case (Text s)
    with Cons.prems have l: "list_all2 is_hole_match found (filter is_hole segs)"
      and w: "\<forall>sg \<in> set segs. wf_seg sg" and p: "CHR ''<'' \<notin> set (pre @ s)"
      by auto
    from Cons.IH[OF l w p, of names] Text show ?thesis by (simp add: render_def)
  next
    case (Hole t n)
    with Cons.prems obtain m found' where found: "found = m # found'"
      and m: "is_hole_match m (Hole t n)"
      and l: "list_all2 is_hole_match found' (filter is_hole segs)"
      by (auto simp: list_all2_Cons2)
    from Cons.prems Hole have wf: "wf_seg (Hole t n)" and w: "\<forall>sg \<in> set segs. wf_seg sg"
      by auto
    let ?h = "render_seg (Hole t n)"
    let ?ty = "case t of None \<Rightarrow> ''string'' | Some ty \<Rightarrow> ty"
    have g1: "match_group m (Suc 0) = Inr t" and g2: "match_group m 2 = Inr (Some n)"
      and g0: "m_text m = ?h"
      using m by (simp_all add: is_hole_match_def match_group_def)
    have ty: "(case t of None \<Rightarrow> ''string'' | Some x \<Rightarrow> if x = [] then ''string'' else x) = ?ty"
      using wf by (cases t) auto
    have hne: "?h \<noteq> []" "hd ?h = CHR ''<''" by (cases t; simp)+
    have rep: "replace_first ?h (type_pattern_of ?ty) (pre @ ?h @ render segs)
        = pre @ type_pattern_of ?ty @ render segs"
      using replace_first_at[OF hne(1), of pre] hne(2) Cons.prems(3) by simp
    have p': "CHR ''<'' \<notin> set (pre @ type_pattern_of ?ty)"
      using Cons.prems(3) type_pattern_no_lt by simp
    have tp: "(case map_of type_patterns ?ty of None \<Rightarrow> ''([^/]+)'' | Some p \<Rightarrow> p)
        = type_pattern_of ?ty"
      by (simp add: type_pattern_of_def)
    have rs: "render (Hole t n # segs) = ?h @ render segs"
      by (simp add: render_def)
    have step: "compile_loop found (pre @ render (sg # segs)) names
        = compile_loop found' ((pre @ type_pattern_of ?ty) @ render segs) (names @ [(n, ?ty)])"
      unfolding found Hole rs
      by (simp add: g1 g2 g0 ty tp rep Let_def)
    have sr: "seg_regex (Hole t n) = type_pattern_of ?ty" "seg_params (Hole t n) = [(n, ?ty)]"
      by (cases t; simp)+
    show ?thesis
      using step Cons.IH[OF l w p', of "names @ [(n, ?ty)]"] sr Hole by simp
  qed
qed

lemma compile_render:
  assumes "\<forall>sg \<in> set segs. wf_seg sg"
  shows "URLPattern_init (render segs)
     = Inr \<lparr> pattern = render segs,
             regex_pattern = ''^'' @ concat (map seg_regex segs) @ ''$'',
             parameter_names = concat (map seg_params segs) \<rparr>"
proof -
  obtain found where f: "find_all param_ast 2 (render segs) (render segs) = Inr found"
      and l: "list_all2 is_hole_match found (filter is_hole segs)"
    using find_all_render[OF assms] by blast
  have "compile_loop found (render segs) []
      = Inr (concat (map seg_regex segs), concat (map seg_params segs))"
    using compile_loop_render[OF l assms, of "[]" "[]"] by simp
  then show ?thesis
    by (simp add: URLPattern_init_def re_finditer_def compile_parameter_regex f)
qed











section \<open>Compiling the pattern of a template\<close>




section \<open>What a match captures\<close>

lemma digit_cls: "cls_match False [CDigit] c = is_digit c"
  by (simp add: cls_match_def)

lemma digit_run_result:
  assumes "x \<in> set (ms inp digit_run (s, g))"
  shows "\<exists>a. s = a @ fst x \<and> a \<noteq> [] \<and> (\<forall>c \<in> set a. is_digit c) \<and> snd x = g"
proof -
  from assms have "x \<in> set (map (\<lambda>r. (r, g)) (butlast (backoff (cls_match False [CDigit]) s)))"
    unfolding digit_run_def ms_seq_eps ms_plus_cls .
  then obtain r where r: "r \<in> set (butlast (backoff (cls_match False [CDigit]) s))" and x: "x = (r, g)"
    by auto
  from butlast_backoff_decomp[OF r] x show ?thesis by (auto simp: digit_cls)
qed

lemma ms_invariant:
  "grp_ok I r \<Longrightarrow> suffix (fst st) subject \<Longrightarrow> caps_ok I subject (snd st)
   \<Longrightarrow> st' \<in> set (ms inp r st)
   \<Longrightarrow> suffix (fst st') (fst st) \<and> caps_ok I subject (snd st')"
proof (induction inp r st arbitrary: st' rule: ms.induct)
  case (1 inp c st)
  then show ?case by (cases "fst st") (auto split: if_splits intro: suffix_ConsI)
next
  case (2 inp st)
  then show ?case by (cases "fst st") (auto split: if_splits intro: suffix_ConsI)
next
  case (3 inp neg items st)
  then show ?case by (cases "fst st") (auto split: if_splits intro: suffix_ConsI)
next
  case (4 inp st)
  then show ?case by (auto split: if_splits)
next
  case (5 inp st)
  then show ?case by (auto split: if_splits)
next
  case (6 inp st)
  then show ?case by auto
next
  case (7 inp a b st)
  from "7.prems"(4) obtain mid where mid: "mid \<in> set (ms inp a st)" and st': "st' \<in> set (ms inp b mid)"
    by auto
  from "7.prems"(1) have ga: "grp_ok I a" and gb: "grp_ok I b" by simp_all
  from "7.IH"(1)[OF ga "7.prems"(2,3) mid]
  have m1: "suffix (fst mid) (fst st)" and m2: "caps_ok I subject (snd mid)" by simp_all
  have m3: "suffix (fst mid) subject" using m1 "7.prems"(2) by (rule suffix_order.trans)
  from "7.IH"(2)[OF mid gb m3 m2 st']
  have "suffix (fst st') (fst mid)" and c: "caps_ok I subject (snd st')" by simp_all
  then have "suffix (fst st') (fst st)" using m1 by (meson suffix_order.trans)
  with c show ?case by simp
next
  case (8 inp a b st)
  from "8.prems"(1) have ga: "grp_ok I a" and gb: "grp_ok I b" by simp_all
  from "8.prems"(4) have "st' \<in> set (ms inp a st) \<or> st' \<in> set (ms inp b st)" by auto
  then show ?case
  proof
    assume "st' \<in> set (ms inp a st)"
    from "8.IH"(1)[OF ga "8.prems"(2,3) this] show ?thesis .
  next
    assume "st' \<in> set (ms inp b st)"
    from "8.IH"(2)[OF gb "8.prems"(2,3) this] show ?thesis .
  qed
next
  case (9 inp n r st)
  from "9.prems"(4) obtain x where x: "x \<in> set (ms inp r st)"
    and st': "st' = (fst x, (n, take (length (fst st) - length (fst x)) (fst st)) # snd x)"
    by auto
  from "9.prems"(1) have gr: "grp_ok I r" and dr: "n \<in> I \<longrightarrow> r = digit_run" by simp_all
  from "9.IH"[OF gr "9.prems"(2,3) x]
  have s1: "suffix (fst x) (fst st)" and c1: "caps_ok I subject (snd x)" by simp_all
  from s1 obtain a where a: "fst st = a @ fst x" by (auto simp: suffix_def)
  then have tk: "take (length (fst st) - length (fst x)) (fst st) = a" by simp
  from "9.prems"(2) obtain b where "subject = b @ fst st" by (auto simp: suffix_def)
  with a have "subject = b @ a @ fst x" by simp
  then have sub: "sublist a subject" by (auto simp: sublist_def)
  have dig: "a \<noteq> [] \<and> (\<forall>c \<in> set a. is_digit c)" if "n \<in> I"
  proof -
    from that dr have "r = digit_run" by simp
    with x have "x \<in> set (ms inp digit_run (fst st, snd st))" by simp
    from digit_run_result[OF this] obtain a' where "fst st = a' @ fst x" "a' \<noteq> []"
      "\<forall>c \<in> set a'. is_digit c" by blast
    with a show ?thesis by simp
  qed
  show ?case
    unfolding st' using s1 c1 sub dig tk by (auto simp: caps_ok_def)
next
  case (10 inp lo hi r st)
  show ?case
  proof (cases "hi = Some 0")
    case True
    with "10.prems" show ?thesis by (subst (asm) ms_Rep) simp
  next
    case False
    from "10.prems"(4) False
    consider (more) x where "x \<in> set (ms inp r st)"
        "0 < lo \<or> length (fst x) < length (fst st)"
        "st' \<in> set (ms inp (Rep (lo - 1) (map_option (\<lambda>h. h - 1) hi) r) x)"
      | (stop) "st' = st"
      by (subst (asm) ms_Rep) (auto split: if_splits)
    then show ?thesis
    proof cases
      case more
      from "10.prems"(1) have gr: "grp_ok I r" by simp
      from "10.IH"(1)[OF False gr "10.prems"(2,3) more(1)]
      have s1: "suffix (fst x) (fst st)" and c1: "caps_ok I subject (snd x)" by simp_all
      have s2: "suffix (fst x) subject" using s1 "10.prems"(2) by (rule suffix_order.trans)
      have g2: "grp_ok I (Rep (lo - 1) (map_option (\<lambda>h. h - 1) hi) r)" using gr by simp
      from "10.IH"(2)[OF False more(1,2) g2 s2 c1 more(3)]
      have "suffix (fst st') (fst x)" and c: "caps_ok I subject (snd st')" by simp_all
      then have "suffix (fst st') (fst st)" using s1 by (meson suffix_order.trans)
      with c show ?thesis by simp
    next
      case stop
      with "10.prems"(3) show ?thesis by simp
    qed
  qed
qed






section \<open>Converting the captured texts\<close>









text \<open>
  Claim C8, as amended. For a template made of literal text without \<open><\<close> and of
  placeholders with a non-empty name (and type, when given), the compiled pattern lists
  the placeholders in their order in the template, one entry for each occurrence, with
  the name as written and the type \<open>string\<close> where none is given. So the names of the
  list are pairwise distinct exactly when no two placeholders of the template have the
  same name.
\<close>

theorem parameter_names_follow_placeholders:
  assumes "\<forall>sg \<in> set segs. wf_seg sg"
  shows "\<exists>p. URLPattern_init (render segs) = Inr p
           \<and> parameter_names p = concat (map seg_params segs)
           \<and> (distinct (map fst (parameter_names p)) \<longleftrightarrow> distinct (placeholder_names segs))"
  using compile_render[OF assms] by (simp add: placeholder_names_def)

text \<open>
  The amended claim C8 at the template \<open>/users/<int:id>/posts/<slug>\<close>.
\<close>

theorem parameter_names_follow_placeholders_witness:
  "\<exists>p. URLPattern_init ''/users/<int:id>/posts/<slug>'' = Inr p
     \<and> parameter_names p = [(''id'', ''int''), (''slug'', ''string'')]
     \<and> distinct (map fst (parameter_names p))"
  using parameter_names_follow_placeholders
          [of "[Text ''/users/'', Hole (Some ''int'') ''id'', Text ''/posts/'', Hole None ''slug'']"]
  by (auto simp: render_def placeholder_names_def)

text \<open>
  Claim C8 as stated fails: the template \<open>/<id>/<id>\<close> compiles, and its parameter list
  holds the name \<open>id\<close> twice.
\<close>

theorem duplicate_parameter_names_counterexample:
  "(case URLPattern_init ''/<id>/<id>'' of
      Inl e \<Rightarrow> False
    | Inr p \<Rightarrow> parameter_names p = [(''id'', ''string''), (''id'', ''string'')]
               \<and> \<not> distinct (map fst (parameter_names p)))"
  by code_simp






section \<open>Registration never fails\<close>

text \<open>
  The constructor of \<open>URLPattern\<close> only scans the template for placeholders and rewrites
  it; the rewritten text is compiled when a url is matched, not before. A match of the
  placeholder expression starts with \<open><\<close>, so it is never empty, and it always sets the
  second group. Hence \<open>add_route\<close> returns for every pattern.
\<close>

lemma grp_ok_empty: "grp_ok {} r"
  by (induction r) simp_all

lemma ms_suffix_fresh:
  assumes "st' \<in> set (ms inp r (s, []))"
  shows "suffix (fst st') s"
  using ms_invariant[OF grp_ok_empty, of "(s, [])" s st' inp r] assms
  by (simp add: caps_ok_def)

lemma ms_seq_mem:
  "st' \<in> set (ms inp (Seq a b) st) \<longleftrightarrow> (\<exists>mid \<in> set (ms inp a st). st' \<in> set (ms inp b mid))"
  unfolding ms.simps(7) by auto

lemma ms_grp_mem:
  "x \<in> set (ms inp (Grp i b) mid) \<Longrightarrow> \<exists>a tx caps. x = (a, (i, tx) # caps)"
  by auto

lemma ends_with_group:
  assumes "st' \<in> set (ms inp (Seq a (Seq (Grp i b) (Seq (Lit c) Eps))) st)"
  shows "\<exists>tx. map_of (snd st') i = Some tx"
proof -
  from assms obtain mid where "st' \<in> set (ms inp (Seq (Grp i b) (Seq (Lit c) Eps)) mid)"
    unfolding ms_seq_mem[of st' inp a] by blast
  then obtain x where x: "x \<in> set (ms inp (Grp i b) mid)"
    and s: "st' \<in> set (ms inp (Seq (Lit c) Eps) x)"
    unfolding ms_seq_mem[of st' inp "Grp i b"] by blast
  from ms_grp_mem[OF x] obtain r tx caps where "x = (r, (i, tx) # caps)"
    by blast
  with s show ?thesis
    unfolding ms_lit_then by (cases r) (auto split: if_splits)
qed

lemma param_match_shape:
  assumes "ms inp param_ast (s, []) = st # others"
  shows "length (fst st) < length s \<and> (\<exists>txt. map_of (snd st) 2 = Some txt)"
proof -
  have mem: "st \<in> set (ms inp param_ast (s, []))" using assms by simp
  obtain s1 where s: "s = CHR ''<'' # s1"
  proof (cases s)
    case Nil
    with assms show ?thesis by (simp add: param_ast_def)
  next
    case (Cons x xs)
    with assms param_no_match[of x inp xs "[]"] have "x = CHR ''<''" by auto
    with Cons that show ?thesis by simp
  qed
  define X where "X = Seq (Rep 0 (Some 1)
               (Seq (Grp 1 (Seq (Rep 1 None (Cls True [CChar (CHR '':''), CChar (CHR ''>'')])) Eps))
                    (Seq (Lit (CHR '':'')) Eps)))
          (Seq (Grp 2 (Seq (Rep 1 None (Cls True [CChar (CHR ''>'')])) Eps))
               (Seq (Lit (CHR ''>'')) Eps))"
  have "ms inp param_ast (CHR ''<'' # s1, []) = ms inp X (s1, [])"
    unfolding param_ast_def X_def ms_lit_then by simp
  with mem s have X: "st \<in> set (ms inp X (s1, []))" by simp
  have g2: "\<exists>txt. map_of (snd st) 2 = Some txt"
    using X unfolding X_def by (rule ends_with_group)
  from X have "suffix (fst st) s1" by (rule ms_suffix_fresh)
  then have "length (fst st) \<le> length s1" by (rule suffix_length_le)
  with s g2 show ?thesis by simp
qed

lemma find_all_total:
  "\<exists>found. find_all param_ast 2 inp rest = Inr found
      \<and> (\<forall>m \<in> set found. m_ngroups m = 2 \<and> (\<exists>txt. map_of (m_caps m) 2 = Some txt))"
proof (induction rest rule: length_induct)
  case (1 rest)
  show ?case
  proof (cases "ms inp param_ast (rest, [])")
    case Nil
    show ?thesis
    proof (cases rest)
      case empty: Nil
      from Nil empty have "ms inp param_ast ([], []) = []" by simp
      then show ?thesis unfolding empty by (subst find_all.simps) simp
    next
      case (Cons x xs)
      with 1 obtain found where "find_all param_ast 2 inp xs = Inr found"
        "\<forall>m \<in> set found. m_ngroups m = 2 \<and> (\<exists>txt. map_of (m_caps m) 2 = Some txt)"
        by auto
      with Nil[unfolded Cons] show ?thesis unfolding Cons by (subst find_all.simps) simp
    qed
  next
    case (Cons st others)
    from param_match_shape[OF Cons] have len: "length (fst st) < length rest"
      and g2: "\<exists>txt. map_of (snd st) 2 = Some txt" by simp_all
    from 1 len obtain found where f: "find_all param_ast 2 inp (fst st) = Inr found"
      "\<forall>m \<in> set found. m_ngroups m = 2 \<and> (\<exists>txt. map_of (m_caps m) 2 = Some txt)"
      by blast
    have "find_all param_ast 2 inp rest = Inr (mk_match 2 inp rest st # found)"
      by (subst find_all.simps) (simp add: Cons len f)
    with f(2) g2 show ?thesis by (simp add: mk_match_def)
  qed
qed

lemma compile_loop_total:
  assumes "\<forall>m \<in> set found. m_ngroups m = 2 \<and> (\<exists>txt. map_of (m_caps m) 2 = Some txt)"
  shows "\<exists>res. compile_loop found rp names = Inr res"
  using assms
proof (induction found arbitrary: rp names)
  case Nil
  then show ?case by simp
next
  case (Cons m found)
  then obtain tx where "map_of (m_caps m) 2 = Some tx" and n: "m_ngroups m = 2" by auto
  then have g: "match_group m 2 = Inr (Some tx)" "match_group m (Suc 0) = Inr (map_of (m_caps m) 1)"
    by (simp_all add: match_group_def)
  from Cons have "\<And>rp names. \<exists>res. compile_loop found rp names = Inr res" by simp
  then show ?case by (simp add: g Let_def)
qed

lemma URLPattern_init_total: "\<exists>p. URLPattern_init t = Inr p"
proof -
  obtain found where f: "find_all param_ast 2 t t = Inr found"
    and s: "\<forall>m \<in> set found. m_ngroups m = 2 \<and> (\<exists>txt. map_of (m_caps m) 2 = Some txt)"
    using find_all_total by blast
  from compile_loop_total[OF s, of t "[]"] obtain res where "compile_loop found t [] = Inr res"
    by blast
  then show ?thesis
    by (cases res) (simp add: URLPattern_init_def re_finditer_def compile_parameter_regex f)
qed

lemma add_route_total: "\<exists>rm'. add_route rm pat meth h mws = Inr rm'"
  using URLPattern_init_total[of pat] by (auto simp: add_route_def Let_def)

lemma register_all_total: "\<exists>rm'. register_all rm regs = Inr rm'"
proof (induction regs arbitrary: rm)
  case Nil
  then show ?case by simp
next
  case (Cons r regs)
  obtain pat meth h mws where r: "r = (pat, meth, h, mws)" by (cases r) auto
  obtain rm1 where "add_route rm pat meth h mws = Inr rm1"
    using add_route_total[of rm pat meth h mws] by auto
  with Cons r show ?case by simp
qed

text \<open>
  Claim C1, as amended. Take any sequence of registrations on a fresh table and a route
  in it whose path does not contain both a \<open><\<close> and a \<open>>\<close>, which is the test \<open>add_route\<close>
  applies, and which no later registration of the same path and method overwrites. Then
  \<open>find_route\<close> on that path and method returns the route's handler, the empty
  parameter mapping and the route's middleware list (the empty list when none was
  given), whatever pattern routes are registered before or after it.
\<close>

theorem static_route_resolves:
  assumes "\<not> (CHR ''<'' \<in> set path \<and> CHR ''>'' \<in> set path)"
      and "\<forall>r \<in> set later. (fst r, fst (snd r)) \<noteq> (path, m)"
  shows "resolve_after (before @ (path, m, h, mws) # later) path m
           = Inr (Some h, [], (case mws of None \<Rightarrow> [] | Some l \<Rightarrow> l))"
proof -
  obtain rm where reg: "register_all RouteManager_init (before @ (path, m, h, mws) # later) = Inr rm"
    using register_all_total by blast
  then obtain rm1 rm2 where
    "register_all RouteManager_init before = Inr rm1" and
    a: "add_route rm1 path m h mws = Inr rm2" and
    rest: "register_all rm2 later = Inr rm"
    by (auto simp: register_all_append split: sum.splits)
  have "static_entry rm2 path m =
      Some \<lparr> handler = h, middlewares = (case mws of None \<Rightarrow> [] | Some l \<Rightarrow> l) \<rparr>"
    using add_route_static_entry[OF a, of path m] assms(1) by (simp add: is_dynamic_def)
  from register_all_keeps_entry[OF rest this assms(2)]
  show ?thesis by (simp add: resolve_after_def reg find_route_static)
qed

text \<open>
  The amended claim C1 at a table with a pattern route before and after the exact route,
  both matching the path \<open>/about\<close>.
\<close>

theorem static_route_resolves_witness:
  "resolve_after
     [(''/<name>'', ''GET'', 1::nat, None),
      (''/about'', ''GET'', 2, Some [7::nat]),
      (''/<path:p>'', ''GET'', 3, None),
      (''/about'', ''POST'', 4, None)] ''/about'' ''GET''
   = Inr (Some 2, [], [7])"
  using static_route_resolves
          [of "''/about''" "[(''/<path:p>'', ''GET'', 3::nat, None), (''/about'', ''POST'', 4, None)]"
              "''GET''" "[(''/<name>'', ''GET'', 1::nat, None)]" 2 "Some [7::nat]"]
  by simp

end
